theory Spec2Isabelle
  imports Main "HOL-Library.Sublist" "HOL-Library.AList" "HOL-Library.Multiset"
begin

section \<open>Go values, errors and maps\<close>

text \<open>
  The dispatcher of \<^verbatim>\<open>feign/ClientProxy.go\<close> receives its arguments as reflected values and
  looks at them in three ways only: it type-asserts argument 0 to \<^verbatim>\<open>context.Context\<close>, it
  type-asserts mapping arguments to \<^verbatim>\<open>map[string]string\<close>, and it prints the others with
  \<^verbatim>\<open>fmt.Sprintf("%v", _)\<close>. A value is therefore the nil interface, a context, a string, an
  integer, a \<^verbatim>\<open>map[string]string\<close>, or a value of some other dynamic type (named by a label).
\<close>

type_synonym smap = "(string \<times> string) list"

datatype go_value =
    VNil
  | VCtx string
  | VString string
  | VInt int
  | VStrMap smap
  | VOther string

text \<open>
  A Go map is an association list with distinct keys. The order of the list is the order in
  which a \<^verbatim>\<open>range\<close> statement of the call at hand visits the entries; Go leaves that order
  unspecified and randomises it, so a statement about the code holds for every order. An
  assignment \<^verbatim>\<open>m[k] = v\<close> is \<^const>\<open>AList.update\<close>; the order of a map that a call builds is
  then the order of the first writes, which no statement below depends on: such maps are
  compared through \<^const>\<open>map_of\<close>. \<open>range_order m ord\<close> says that \<open>ord\<close> is one of the orders in
  which \<^verbatim>\<open>range m\<close> may visit the entries of \<open>m\<close>.
\<close>

definition range_order :: "('k \<times> 'v) list \<Rightarrow> ('k \<times> 'v) list \<Rightarrow> bool" where
  "range_order m ord = (distinct (map fst ord) \<and> set ord = set m)"

text \<open>
  \<^verbatim>\<open>HttpError\<close> is the struct of \<^verbatim>\<open>ClientProxy.go\<close> with its fields \<^verbatim>\<open>StatusCode\<close>, \<^verbatim>\<open>Status\<close> and
  \<^verbatim>\<open>Body\<close> in this order; a field that a composite literal leaves out has Go's zero value
  (\<open>0\<close>, the empty string). The other errors of the package are made
  by \<^verbatim>\<open>errors.New\<close>, by \<^verbatim>\<open>fmt.Errorf("unmarshal failed: %w", err)\<close>, or come from a collaborator
  (the transport, the JSON decoder) and are known by their message only.
\<close>

datatype go_error =
    HttpError int string string
  | ErrorsNew string
  | UnmarshalFailed string
  | ExternalError string


datatype panic = IndexOutOfRange | TypeAssertion | FuncIndexOutOfBounds

text \<open>\<^verbatim>\<open>args[k]\<close>: a run-time panic when \<open>k\<close> is not an index of the slice.\<close>

definition index :: "'a list \<Rightarrow> nat \<Rightarrow> panic + 'a" where
  "index xs k = (if k < length xs then Inr (xs ! k) else Inl IndexOutOfRange)"

section \<open>Requests, handlers and the middleware chain (\<^verbatim>\<open>feign/Client.go\<close>)\<close>

text \<open>
  \<^verbatim>\<open>Result\<close> is a pointer to the cell that receives the decoded payload: \<open>None\<close> is the nil
  interface, \<open>Some a\<close> a pointer named \<open>a\<close>.
\<close>

record request =
  Context :: string
  Method :: string
  Path :: string
  PathVars :: smap
  Params :: smap
  Headers :: smap
  Body :: go_value
  Result :: "string option"

text \<open>
  A \<^verbatim>\<open>Handler\<close> is a \<^verbatim>\<open>func(req *Request) error\<close>: it may change the request it points to and
  the world outside (the network, the console, the result cell), and it returns an error or
  nil. The world is a parameter \<open>'w\<close>. A \<^verbatim>\<open>Middleware\<close> maps the next handler to a handler.
\<close>

type_synonym 'w handler = "request \<Rightarrow> 'w \<Rightarrow> go_error option \<times> request \<times> 'w"

type_synonym 'w middleware = "'w handler \<Rightarrow> 'w handler"

record 'w client =
  baseURL :: string
  headers :: smap
  debug :: bool
  middlewares :: "'w middleware list"


text \<open>
  \<^verbatim>\<open>for i := len(c.middlewares) - 1; i >= 0; i-- { final = c.middlewares[i](final) }\<close>:
  \<open>buildChain_loop ms n final\<close> is the loop with \<open>n = i + 1\<close> iterations left.
\<close>

fun buildChain_loop :: "'w middleware list \<Rightarrow> nat \<Rightarrow> 'w handler \<Rightarrow> 'w handler" where
  "buildChain_loop ms 0 final = final"
| "buildChain_loop ms (Suc i) final = buildChain_loop ms i ((ms ! i) final)"

definition buildChain :: "'w client \<Rightarrow> 'w handler \<Rightarrow> 'w handler" where
  "buildChain c final = buildChain_loop (middlewares c) (length (middlewares c)) final"

text \<open>
  Both entry points run their terminal handler through the chain in the same way:
  \<^verbatim>\<open>if len(c.middlewares) > 0 { err = c.buildChain(handler)(req) } else { err = handler(req) }\<close>.
\<close>

definition runChain :: "'w client \<Rightarrow> 'w handler \<Rightarrow> 'w handler" where
  "runChain c handler = (if length (middlewares c) > 0 then buildChain c handler else handler)"

text \<open>
  The interceptors of the repository's examples (logging, metrics) have one shape: some
  logic before the call of \<^verbatim>\<open>next\<close>, one call of \<^verbatim>\<open>next\<close>, and some logic after it that sees the
  error \<^verbatim>\<open>next\<close> returned and decides what to return. \<open>around pre post\<close> is that shape for any
  two pieces of logic.
\<close>

definition around ::
  "(request \<Rightarrow> 'w \<Rightarrow> request \<times> 'w) \<Rightarrow>
   (go_error option \<Rightarrow> request \<Rightarrow> 'w \<Rightarrow> go_error option \<times> request \<times> 'w) \<Rightarrow> 'w middleware" where
  "around pre post next =
     (\<lambda>req w. case pre req w of (r1, w1) \<Rightarrow>
        (case next r1 w1 of (e, r2, w2) \<Rightarrow> post e r2 w2))"

text \<open>
  The logging middleware of the example program: it prints a line before and a line after
  the call of \<^verbatim>\<open>next\<close> and returns the error of \<^verbatim>\<open>next\<close>. The world is the console, a list of
  printed events.
\<close>

datatype event =
    Before string string string
  | After string string string "go_error option"
  | Terminal string

definition loggingMiddleware :: "string \<Rightarrow> (event list) middleware" where
  "loggingMiddleware name =
     around (\<lambda>req out. (req, out @ [Before name (Method req) (Path req)]))
            (\<lambda>err req out. (err, req, out @ [After name (Method req) (Path req) err]))"


fun retry_loop ::
  "(nat \<Rightarrow> go_error option \<Rightarrow> 'w \<Rightarrow> 'w) \<Rightarrow> 'w handler \<Rightarrow> nat \<Rightarrow> go_error option \<Rightarrow> 'w handler" where
  "retry_loop tell next 0 lastErr req w = (lastErr, req, tell 3 lastErr w)"
| "retry_loop tell next (Suc k) lastErr req w =
     (case next req w of
        (None, r1, w1) \<Rightarrow> (None, r1, if 3 - k > 1 then tell (3 - k) None w1 else w1)
      | (Some err, r1, w1) \<Rightarrow> retry_loop tell next k (Some err) r1 (tell (3 - k) (Some err) w1))"

definition retryMiddleware :: "(nat \<Rightarrow> go_error option \<Rightarrow> 'w \<Rightarrow> 'w) \<Rightarrow> 'w middleware" where
  "retryMiddleware tell next = retry_loop tell next 3 None"

text \<open>
  An interceptor passes the error on when the error it returns is the error of a call of
  its next handler, on some request and in some state of the world. The logging, the metrics,
  the header and the retry interceptor do; an interceptor that makes an error of its own does
  not.
\<close>

definition passes_error :: "'w middleware \<Rightarrow> bool" where
  "passes_error mw = (\<forall>next req w. \<exists>req0 w0. fst (mw next req w) = fst (next req0 w0))"

section \<open>The standard library's \<^verbatim>\<open>strings.ReplaceAll\<close>\<close>

text \<open>
  \<^verbatim>\<open>strings.ReplaceAll(s, old, new)\<close> replaces the non-overlapping instances of \<open>old\<close> in \<open>s\<close>,
  found from left to right, by \<open>new\<close>. With an empty \<open>old\<close> it inserts \<open>new\<close> before every
  character and at the end (a character is a byte here: the model is exact on ASCII text).
\<close>

function replace_scan :: "string \<Rightarrow> string \<Rightarrow> string \<Rightarrow> string" where
  "replace_scan old new [] = []"
| "replace_scan old new (c # cs) =
     (if old \<noteq> [] \<and> prefix old (c # cs)
      then new @ replace_scan old new (drop (length old) (c # cs))
      else c # replace_scan old new cs)"
  by pat_completeness auto
termination
  by (relation "measure (\<lambda>(old, new, s). length s)") auto

definition ReplaceAll :: "string \<Rightarrow> string \<Rightarrow> string \<Rightarrow> string" where
  "ReplaceAll s old new =
     (if old = [] then new @ concat (map (\<lambda>c. c # new) s) else replace_scan old new s)"

section \<open>The collaborators\<close>

text \<open>
  The HTTP transport (resty), the JSON decoder, \<^verbatim>\<open>fmt\<close> and the configuration store (viper) are
  not code of this package. The package builds a resty request by a sequence of setter calls
  and then executes it; the model keeps the sequence of calls and hands it to the transport.
  The transport answers with an error (known by its message) or with a response. The decoder
  gets the payload and the result pointer and answers with an error message or nil.
  \<open>Print\<close> is the console (it gets the operands of a \<^verbatim>\<open>Printf\<close> or \<^verbatim>\<open>Println\<close> call), \<open>Sprint\<close> is
  \<^verbatim>\<open>fmt.Sprintf("%v", _)\<close>, \<open>GetString\<close> is \<^verbatim>\<open>viper.GetString\<close>.
\<close>

datatype resty_call =
    SetContext string
  | SetHeader string string
  | SetQueryParams smap
  | SetBody go_value

record response =
  respStatusCode :: int
  respStatus :: string
  respBody :: string

record 'w collaborators =
  Execute :: "resty_call list \<Rightarrow> string \<Rightarrow> string \<Rightarrow> 'w \<Rightarrow> (string + response) \<times> 'w"
  Unmarshal :: "string \<Rightarrow> string option \<Rightarrow> 'w \<Rightarrow> string option \<times> 'w"
  Print :: "go_value list \<Rightarrow> 'w \<Rightarrow> 'w"
  Sprint :: "go_value \<Rightarrow> string"
  GetString :: "string \<Rightarrow> string"

section \<open>The programmatic entry point \<^verbatim>\<open>CallREST\<close> (\<^verbatim>\<open>feign/Client.go\<close>)\<close>

definition validStatusCodes :: "(string \<times> int list) list" where
  "validStatusCodes =
     [(''GET'', [200]), (''POST'', [200, 201]), (''PUT'', [200]), (''DELETE'', [200, 204])]"

text \<open>Reading a Go map at a key it does not have gives the zero value, here the nil slice.\<close>

fun isValidStatus_loop :: "int list \<Rightarrow> int \<Rightarrow> bool" where
  "isValidStatus_loop [] status = False"
| "isValidStatus_loop (code # codes) status =
     (if status = code then True else isValidStatus_loop codes status)"

definition isValidStatus :: "string \<Rightarrow> int \<Rightarrow> bool" where
  "isValidStatus method status =
     isValidStatus_loop (case map_of validStatusCodes method of None \<Rightarrow> [] | Some cs \<Rightarrow> cs) status"

text \<open>\<^verbatim>\<open>for k, v := range pathVars { path = strings.ReplaceAll(path, "{"+k+"}", v) }\<close>\<close>

fun formatPath :: "string \<Rightarrow> smap \<Rightarrow> string" where
  "formatPath path [] = path"
| "formatPath path ((k, v) # pathVars) =
     formatPath (ReplaceAll path (''{'' @ k @ ''}'') v) pathVars"

text \<open>The setter calls of the handler of \<^verbatim>\<open>CallREST\<close>, in the order the handler issues them.\<close>

definition CallREST_resty :: "'w client \<Rightarrow> request \<Rightarrow> resty_call list" where
  "CallREST_resty c r =
     [SetContext (Context r)]
     @ map (\<lambda>(k, v). SetHeader k v) (headers c)
     @ map (\<lambda>(k, v). SetHeader k v) (Headers r)
     @ (if length (Params r) > 0 then [SetQueryParams (Params r)] else [])
     @ (if Body r \<noteq> VNil
        then [SetHeader ''Content-Type'' ''application/json'', SetBody (Body r)] else [])"

definition CallREST_handler :: "'w collaborators \<Rightarrow> 'w client \<Rightarrow> 'w handler" where
  "CallREST_handler co c r w =
     (let p = formatPath (Path r) (PathVars r);
          reqResty = CallREST_resty c r
      in if Method r \<notin> {''GET'', ''POST'', ''PUT'', ''DELETE''}
         then (Some (ErrorsNew (''unsupported HTTP method: '' @ Method r)), r, w)
         else (case Execute co reqResty (Method r) p w of
                 (Inl err, w1) \<Rightarrow> (Some (ExternalError err), r, w1)
               | (Inr resp, w1) \<Rightarrow>
                   if \<not> isValidStatus (Method r) (respStatusCode resp)
                   then (Some (ErrorsNew (''request failed with status: '' @ respStatus resp)), r,
                         if debug c
                         then Print co [VString (Method r), VString p, VInt (respStatusCode resp),
                                    VString (respBody resp)] w1 else w1)
                   else if Result r \<noteq> None
                   then (case Unmarshal co (respBody resp) (Result r) w1 of
                           (Some err, w2) \<Rightarrow> (Some (ExternalError err), r, w2)
                         | (None, w2) \<Rightarrow> (None, r, w2))
                   else (None, r, w1)))"

definition CallREST ::
  "'w collaborators \<Rightarrow> 'w client \<Rightarrow> string \<Rightarrow> string \<Rightarrow> string \<Rightarrow> smap \<Rightarrow> smap \<Rightarrow> smap \<Rightarrow>
   go_value \<Rightarrow> string option \<Rightarrow> 'w \<Rightarrow> go_error option \<times> 'w" where
  "CallREST co c ctx method path pathVars params hdrs body result w =
     (let req = \<lparr>Context = ctx, Method = method, Path = path, PathVars = pathVars,
                 Params = params, Headers = hdrs, Body = body, Result = result\<rparr>
      in case runChain c (CallREST_handler co c) req w of (err, r', w') \<Rightarrow> (err, w'))"

section \<open>The generated functions (\<^verbatim>\<open>feign/ClientProxy.go\<close>)\<close>

text \<open>
  \<^verbatim>\<open>tagMeta\<close>: the maps from argument positions to names. The fields carry the prefix
  \<open>meta_\<close> because \<^verbatim>\<open>Path\<close>, \<^verbatim>\<open>PathVars\<close> and \<^verbatim>\<open>Headers\<close> are fields of the request as well.
\<close>

record tagMeta =
  meta_HttpMethod :: string
  meta_Path :: string
  meta_BodyParam :: "(nat \<times> string) list"
  meta_PathVars :: "(nat \<times> string) list"
  meta_Headers :: "(nat \<times> string) list"
  meta_Queries :: "(nat \<times> string) list"
  meta_MapHeaders :: "(nat \<times> string) list"
  meta_MapQueries :: "(nat \<times> string) list"

text \<open>
  \<^verbatim>\<open>ctx := args[0].Interface().(context.Context)\<close>: the assertion panics on a value that is
  not a context, the nil interface included.
\<close>

definition contextOf :: "go_value list \<Rightarrow> panic + string" where
  "contextOf args =
     (case index args 0 of
        Inl p \<Rightarrow> Inl p
      | Inr (VCtx ctx) \<Rightarrow> Inr ctx
      | Inr _ \<Rightarrow> Inl TypeAssertion)"

text \<open>
  \<^verbatim>\<open>for k := range meta.BodyParam { body = args[k].Interface(); break }\<close>: the body is the
  argument at the key the loop visits first, and stays nil when the map is empty.
\<close>

fun bodyLoop :: "(nat \<times> string) list \<Rightarrow> go_value list \<Rightarrow> panic + go_value" where
  "bodyLoop [] args = Inr VNil"
| "bodyLoop ((k, name) # rest) args = index args k"

text \<open>
  \<^verbatim>\<open>for index, p := range meta.PathVars { pathProcessed = strings.ReplaceAll(pathProcessed,
  fmt.Sprintf("{%s}", p), fmt.Sprintf("%v", args[index].Interface())) }\<close>
\<close>

fun pathLoop ::
  "(go_value \<Rightarrow> string) \<Rightarrow> (nat \<times> string) list \<Rightarrow> go_value list \<Rightarrow> string \<Rightarrow> panic + string" where
  "pathLoop sprint [] args pathProcessed = Inr pathProcessed"
| "pathLoop sprint ((i, p) # rest) args pathProcessed =
     (case index args i of
        Inl e \<Rightarrow> Inl e
      | Inr a \<Rightarrow> pathLoop sprint rest args (ReplaceAll pathProcessed (''{'' @ p @ ''}'') (sprint a)))"

text \<open>
  \<^verbatim>\<open>for k, v := range meta.Queries { queryParams[v] = fmt.Sprintf("%v", args[k].Interface()) }\<close>,
  and the same loop over \<^verbatim>\<open>meta.Headers\<close> into \<^verbatim>\<open>headersMap\<close>.
\<close>

fun singleLoop ::
  "(go_value \<Rightarrow> string) \<Rightarrow> (nat \<times> string) list \<Rightarrow> go_value list \<Rightarrow> smap \<Rightarrow> panic + smap" where
  "singleLoop sprint [] args m = Inr m"
| "singleLoop sprint ((k, v) # rest) args m =
     (case index args k of
        Inl e \<Rightarrow> Inl e
      | Inr a \<Rightarrow> singleLoop sprint rest args (AList.update v (sprint a) m))"

text \<open>
  \<^verbatim>\<open>for k, _ := range meta.MapQueries { if m, ok := args[k].Interface().(map[string]string); ok
  { for k2, v2 := range m { queryParams[k2] = v2 } } }\<close>, and the same loop over
  \<^verbatim>\<open>meta.MapHeaders\<close> into \<^verbatim>\<open>headersMap\<close>.
\<close>

fun mapLoop :: "(nat \<times> string) list \<Rightarrow> go_value list \<Rightarrow> smap \<Rightarrow> panic + smap" where
  "mapLoop [] args acc = Inr acc"
| "mapLoop ((k, name) # rest) args acc =
     (case index args k of
        Inl e \<Rightarrow> Inl e
      | Inr a \<Rightarrow>
          (case a of
             VStrMap m \<Rightarrow> mapLoop rest args (fold (\<lambda>(k2, v2). AList.update k2 v2) m acc)
           | _ \<Rightarrow> mapLoop rest args acc))"

definition bindP :: "panic + 'a \<Rightarrow> ('a \<Rightarrow> panic + 'b) \<Rightarrow> panic + 'b" where
  "bindP x f = (case x of Inl p \<Rightarrow> Inl p | Inr a \<Rightarrow> f a)"

text \<open>
  The first half of the closure of \<^verbatim>\<open>generateFuncHandler\<close>: from the call plan and the
  arguments to the normalized request. \<open>out\<close> names the fresh result cell.
\<close>

definition buildRequest ::
  "(go_value \<Rightarrow> string) \<Rightarrow> tagMeta \<Rightarrow> go_value list \<Rightarrow> panic + request" where
  "buildRequest sprint meta args =
     bindP (contextOf args) (\<lambda>ctx.
     bindP (bodyLoop (meta_BodyParam meta) args) (\<lambda>body.
     bindP (pathLoop sprint (meta_PathVars meta) args (meta_Path meta)) (\<lambda>pathProcessed.
     bindP (singleLoop sprint (meta_Queries meta) args []) (\<lambda>q1.
     bindP (mapLoop (meta_MapQueries meta) args q1) (\<lambda>queryParams.
     bindP (singleLoop sprint (meta_Headers meta) args []) (\<lambda>h1.
     bindP (mapLoop (meta_MapHeaders meta) args h1) (\<lambda>headersMap.
       Inr \<lparr>Context = ctx, Method = meta_HttpMethod meta, Path = pathProcessed, PathVars = [],
            Params = queryParams, Headers = headersMap, Body = body,
            Result = Some ''out''\<rparr>)))))))"

text \<open>The setter calls of the terminal handler, in the order the handler issues them.\<close>

definition generated_resty :: "'w client \<Rightarrow> request \<Rightarrow> resty_call list" where
  "generated_resty c r =
     [SetContext (Context r)]
     @ map (\<lambda>(k, v). SetHeader k v) (headers c)
     @ map (\<lambda>(k, v). SetHeader k v) (Headers r)
     @ (if length (Params r) > 0 then [SetQueryParams (Params r)] else [])
     @ (if Body r \<noteq> VNil \<and> Method r \<noteq> ''GET''
        then [SetHeader ''Content-Type'' ''application/json'', SetBody (Body r)] else [])"

definition generated_handler :: "'w collaborators \<Rightarrow> 'w client \<Rightarrow> string \<Rightarrow> 'w handler" where
  "generated_handler co c baseUrl r w =
     (let rResty = generated_resty c r;
          w0 = Print co [VString (Method r), VString (baseUrl @ Path r)] w
      in case Execute co rResty (Method r) (Path r) w0 of
           (Inl err, w1) \<Rightarrow> (Some (HttpError 0 ''connection failed'' err), r, w1)
         | (Inr resp, w1) \<Rightarrow>
             if respStatusCode resp < 200 \<or> respStatusCode resp \<ge> 300
             then (Some (HttpError (respStatusCode resp) (respStatus resp) (respBody resp)), r, w1)
             else (case Unmarshal co (respBody resp) (Result r) w1 of
                     (Some err, w2) \<Rightarrow> (Some (UnmarshalFailed err), r, Print co [VString err] w2)
                   | (None, w2) \<Rightarrow> (None, r, w2)))"

text \<open>
  The function that \<^verbatim>\<open>generateFuncHandler\<close> makes. It returns the error (with the zero value
  of the result type) or nil (with the result cell); a panic of the request construction
  ends the call before anything is sent.
\<close>

definition generateFuncHandler ::
  "'w collaborators \<Rightarrow> 'w client \<Rightarrow> tagMeta \<Rightarrow> string \<Rightarrow> go_value list \<Rightarrow> 'w \<Rightarrow>
   panic + (go_error option \<times> 'w)" where
  "generateFuncHandler co c meta baseUrl args w =
     bindP (buildRequest (Sprint co) meta args) (\<lambda>req.
       case runChain c (generated_handler co c baseUrl) req w of (err, r', w') \<Rightarrow> Inr (err, w'))"

section \<open>The standard library's string functions used by the parser\<close>

text \<open>
  The functions of package \<^verbatim>\<open>strings\<close> that the parser calls, on ASCII text (white space is
  space, tab, line feed, vertical tab, form feed and carriage return; only the letters
  \<^verbatim>\<open>a\<close> to \<^verbatim>\<open>z\<close> have an upper case). \<open>Split\<close> is \<^verbatim>\<open>strings.Split\<close> for a separator of one
  character, \<open>SplitN2\<close> is \<^verbatim>\<open>strings.SplitN(_, " ", 2)\<close>.
\<close>

definition isSpace :: "char \<Rightarrow> bool" where
  "isSpace c = (c \<in> {CHR '' '', CHR 0x09, CHR 0x0A, CHR 0x0B, CHR 0x0C, CHR 0x0D})"

definition TrimSpace :: "string \<Rightarrow> string" where
  "TrimSpace s = rev (dropWhile isSpace (rev (dropWhile isSpace s)))"

fun Split :: "string \<Rightarrow> char \<Rightarrow> string list" where
  "Split [] sep = [[]]"
| "Split (c # cs) sep =
     (if c = sep then [] # Split cs sep
      else (case Split cs sep of [] \<Rightarrow> [[c]] | x # xs \<Rightarrow> (c # x) # xs))"

fun SplitN2 :: "string \<Rightarrow> string list" where
  "SplitN2 [] = [[]]"
| "SplitN2 (c # cs) =
     (if c = CHR '' '' then [[], cs]
      else (case SplitN2 cs of [] \<Rightarrow> [[c]] | x # xs \<Rightarrow> (c # x) # xs))"

definition TrimPrefix :: "string \<Rightarrow> string \<Rightarrow> string" where
  "TrimPrefix s pre = (if prefix pre s then drop (length pre) s else s)"

definition toUpperChar :: "char \<Rightarrow> char" where
  "toUpperChar c =
     (if 97 \<le> (of_char c :: nat) \<and> (of_char c :: nat) \<le> 122
      then char_of ((of_char c :: nat) - 32) else c)"

definition ToUpper :: "string \<Rightarrow> string" where
  "ToUpper s = map toUpperChar s"

text \<open>\<^verbatim>\<open>strings.Fields\<close>: the maximal runs of characters that are not white space.\<close>

fun Fields_scan :: "string \<Rightarrow> string \<Rightarrow> string list" where
  "Fields_scan cur [] = (if cur = [] then [] else [cur])"
| "Fields_scan cur (c # cs) =
     (if isSpace c then (if cur = [] then Fields_scan [] cs else cur # Fields_scan [] cs)
      else Fields_scan (cur @ [c]) cs)"

definition Fields :: "string \<Rightarrow> string list" where
  "Fields s = Fields_scan [] s"

section \<open>Reflected types\<close>

text \<open>
  The types of struct fields and of method parameters, as far as the package inspects them
  through \<^verbatim>\<open>reflect\<close>: the kind of a type (a defined type has the kind of its underlying type),
  key and element type of a map, the parameters of a function type, and identity with the
  empty struct type \<^verbatim>\<open>struct{}\<close>.
\<close>

datatype go_kind = KBool | KInt | KString | KInterface | KStruct | KPtr | KSlice | KMap | KFunc

datatype go_type =
    TBool
  | TInt
  | TString
  | TInterface string
  | TEmptyStruct
  | TStruct string
  | TPtr go_type
  | TSlice go_type
  | TMap go_type go_type
  | TFunc "go_type list" "go_type list"
  | TDefined string go_type

fun Kind :: "go_type \<Rightarrow> go_kind" where
  "Kind TBool = KBool"
| "Kind TInt = KInt"
| "Kind TString = KString"
| "Kind (TInterface n) = KInterface"
| "Kind TEmptyStruct = KStruct"
| "Kind (TStruct n) = KStruct"
| "Kind (TPtr t) = KPtr"
| "Kind (TSlice t) = KSlice"
| "Kind (TMap k e) = KMap"
| "Kind (TFunc ins outs) = KFunc"
| "Kind (TDefined n t) = Kind t"

fun KeyElem :: "go_type \<Rightarrow> (go_type \<times> go_type) option" where
  "KeyElem (TMap k e) = Some (k, e)"
| "KeyElem (TDefined n t) = KeyElem t"
| "KeyElem _ = None"

text \<open>
  \<^verbatim>\<open>inType.Kind() == reflect.Map && inType.Key().Kind() == reflect.String &&
  inType.Elem().Kind() == reflect.String\<close>
\<close>

definition isStringMapKind :: "go_type \<Rightarrow> bool" where
  "isStringMapKind inType =
     (Kind inType = KMap \<and>
      (case KeyElem inType of None \<Rightarrow> False | Some (k, e) \<Rightarrow> Kind k = KString \<and> Kind e = KString))"

text \<open>
  \<^verbatim>\<open>methodType.In(j)\<close> panics when \<open>j\<close> is not the index of a parameter (and on a type that
  is no function type, which \<^verbatim>\<open>Create\<close> never passes).
\<close>

fun In :: "go_type \<Rightarrow> nat \<Rightarrow> panic + go_type" where
  "In (TFunc ins outs) j = (if j < length ins then Inr (ins ! j) else Inl FuncIndexOutOfBounds)"
| "In (TDefined n t) j = In t j"
| "In _ j = Inl FuncIndexOutOfBounds"

text \<open>A struct field: its name, its type and the value of the key \<^verbatim>\<open>feign\<close> of its tag.\<close>

record struct_field =
  field_Name :: string
  field_Type :: go_type
  field_Tag :: string

section \<open>The annotation parser \<^verbatim>\<open>parseTagInfo\<close>\<close>

text \<open>The body of the loop over the segments, for the segment \<open>line\<close> at position \<open>j\<close>.\<close>

definition parse_segment :: "go_type \<Rightarrow> nat \<Rightarrow> string \<Rightarrow> tagMeta \<Rightarrow> panic + tagMeta" where
  "parse_segment methodType j line0 meta =
     (let line = TrimSpace line0 in
      if line = [] then Inr meta
      else let parts = SplitN2 line in
      if length parts < 2 then Inr meta
      else let tag = TrimPrefix (parts ! 0) ''@''; value = parts ! 1; kw = ToUpper tag in
      if kw \<in> {''GET'', ''POST'', ''PUT'', ''DELETE''}
        then Inr (meta\<lparr>meta_HttpMethod := kw, meta_Path := value\<rparr>)
      else if kw = ''PATH''
        then Inr (meta\<lparr>meta_PathVars := AList.update j value (meta_PathVars meta)\<rparr>)
      else if kw = ''HEADER''
        then Inr (meta\<lparr>meta_Headers := AList.update j value (meta_Headers meta)\<rparr>)
      else if kw = ''BODY''
        then Inr (meta\<lparr>meta_BodyParam := AList.update j value (meta_BodyParam meta)\<rparr>)
      else if kw = ''QUERY''
        then Inr (meta\<lparr>meta_Queries := AList.update j value (meta_Queries meta)\<rparr>)
      else if kw = ''HEADERS''
        then bindP (In methodType j) (\<lambda>inType.
               if isStringMapKind inType
               then Inr (meta\<lparr>meta_MapHeaders := AList.update j value (meta_MapHeaders meta)\<rparr>)
               else Inr meta)
      else if kw = ''QUERIES''
        then bindP (In methodType j) (\<lambda>inType.
               if isStringMapKind inType
               then Inr (meta\<lparr>meta_MapQueries := AList.update j value (meta_MapQueries meta)\<rparr>)
               else Inr meta)
      else Inr meta)"

fun parse_loop :: "go_type \<Rightarrow> nat \<Rightarrow> string list \<Rightarrow> tagMeta \<Rightarrow> panic + tagMeta" where
  "parse_loop methodType j [] meta = Inr meta"
| "parse_loop methodType j (line # lines) meta =
     bindP (parse_segment methodType j line meta) (parse_loop methodType (Suc j) lines)"

definition parseTagInfo :: "struct_field \<Rightarrow> panic + tagMeta" where
  "parseTagInfo method =
     parse_loop (field_Type method) 0 (Split (field_Tag method) CHR ''|'')
       \<lparr>meta_HttpMethod = [], meta_Path = [], meta_BodyParam = [], meta_PathVars = [],
        meta_Headers = [], meta_Queries = [], meta_MapHeaders = [], meta_MapQueries = []\<rparr>"

section \<open>The base URL (\<^verbatim>\<open>resolveUrl\<close>, \<^verbatim>\<open>extractBaseURLFromStruct\<close>, \<^verbatim>\<open>New\<close>)\<close>

definition resolveUrl :: "(string \<Rightarrow> string) \<Rightarrow> string \<Rightarrow> string" where
  "resolveUrl getString v =
     (if prefix ''http://'' v \<or> prefix ''https://'' v then v else getString v)"

text \<open>
  The inner loop over the segments of one tag and the outer loop over the fields;
  \<open>Some url\<close> is the \<^verbatim>\<open>return url\<close> from inside the loops.
\<close>

fun url_lines :: "(string \<Rightarrow> string) \<Rightarrow> string list \<Rightarrow> string option" where
  "url_lines getString [] = None"
| "url_lines getString (line0 # lines) =
     (let line = TrimSpace line0 in
      if prefix ''@Url'' line
      then (let parts = Fields line in
            if length parts \<ge> 2
            then (let url = resolveUrl getString (parts ! 1) in
                  if url \<noteq> [] then Some url else url_lines getString lines)
            else url_lines getString lines)
      else url_lines getString lines)"

fun url_fields :: "(string \<Rightarrow> string) \<Rightarrow> struct_field list \<Rightarrow> string option" where
  "url_fields getString [] = None"
| "url_fields getString (field # rest) =
     (if field_Type field = TEmptyStruct
      then (case url_lines getString (Split (field_Tag field) CHR ''|'') of
              Some url \<Rightarrow> Some url
            | None \<Rightarrow> url_fields getString rest)
      else url_fields getString rest)"

definition extractBaseURLFromStruct ::
  "(string \<Rightarrow> string) \<Rightarrow> struct_field list \<Rightarrow> string \<Rightarrow> string" where
  "extractBaseURLFromStruct getString t defaultURL =
     (case url_fields getString t of Some url \<Rightarrow> url | None \<Rightarrow> defaultURL)"

text \<open>
  The values that a client struct declares for its base URL, in the order of the fields and
  then of the segments of a tag: the second word of every segment that starts with \<^verbatim>\<open>@Url\<close>
  and has two words, in the tags of the fields of type \<^verbatim>\<open>struct{}\<close>. \<open>first_resolved\<close> is
  the first of the declared values whose resolution is not empty.
\<close>

definition declared_urls_of_tag :: "string \<Rightarrow> string list" where
  "declared_urls_of_tag tag =
     concat (map (\<lambda>line0. let line = TrimSpace line0 in
                    if prefix ''@Url'' line \<and> length (Fields line) \<ge> 2 then [Fields line ! 1] else [])
              (Split tag CHR ''|''))"

definition declared_urls :: "struct_field list \<Rightarrow> string list" where
  "declared_urls t =
     concat (map (\<lambda>f. if field_Type f = TEmptyStruct then declared_urls_of_tag (field_Tag f) else []) t)"

definition first_resolved :: "(string \<Rightarrow> string) \<Rightarrow> string list \<Rightarrow> string option" where
  "first_resolved getString vs = find (\<lambda>u. u \<noteq> []) (map (resolveUrl getString) vs)"

text \<open>
  \<^verbatim>\<open>New(cfg)\<close> keeps the URL and the headers of the configuration, and \<^verbatim>\<open>Create\<close> resolves the
  base URL of a client struct with the URL of the client as the default.
\<close>

record config =
  cfg_Url :: string
  cfg_Headers :: smap
  cfg_Debug :: bool

definition New :: "config \<Rightarrow> 'w client" where
  "New cfg = \<lparr>baseURL = cfg_Url cfg, headers = cfg_Headers cfg, debug = cfg_Debug cfg,
              middlewares = []\<rparr>"

definition Create_baseUrl :: "(string \<Rightarrow> string) \<Rightarrow> 'w client \<Rightarrow> struct_field list \<Rightarrow> string" where
  "Create_baseUrl getString c t = extractBaseURLFromStruct getString t (baseURL c)"

section \<open>Path templates\<close>

text \<open>
  A path template as its author reads it: literal text and placeholders \<^verbatim>\<open>{name}\<close>. It is
  well formed when neither the literal text nor a name contains a brace. \<open>substituted vars\<close>
  is the template with every placeholder that has a value in \<open>vars\<close> replaced by that value
  (the first one in \<open>vars\<close>) and every other placeholder left as it is. \<open>bound_values\<close> are
  the names of the bindings with the string forms of their arguments, in visiting order;
  \<open>fill\<close> replaces one name in a template.
\<close>

datatype segment = Lit string | Hole string

definition placeholder :: "string \<Rightarrow> string" where
  "placeholder name = ''{'' @ name @ ''}''"

fun render_segment :: "segment \<Rightarrow> string" where
  "render_segment (Lit s) = s"
| "render_segment (Hole name) = placeholder name"

definition render :: "segment list \<Rightarrow> string" where
  "render segs = concat (map render_segment segs)"

definition brace_free :: "string \<Rightarrow> bool" where
  "brace_free s = (CHR ''{'' \<notin> set s \<and> CHR ''}'' \<notin> set s)"

fun wellformed_segment :: "segment \<Rightarrow> bool" where
  "wellformed_segment (Lit s) = brace_free s"
| "wellformed_segment (Hole name) = brace_free name"

fun substitute :: "smap \<Rightarrow> segment \<Rightarrow> string" where
  "substitute vars (Lit s) = s"
| "substitute vars (Hole name) =
     (case map_of vars name of Some v \<Rightarrow> v | None \<Rightarrow> placeholder name)"

definition substituted :: "smap \<Rightarrow> segment list \<Rightarrow> string" where
  "substituted vars segs = concat (map (substitute vars) segs)"

fun fill :: "string \<Rightarrow> string \<Rightarrow> segment \<Rightarrow> segment" where
  "fill p v (Lit s) = Lit s"
| "fill p v (Hole name) = (if name = p then Lit v else Hole name)"

definition bound_values :: "(go_value \<Rightarrow> string) \<Rightarrow> (nat \<times> string) list \<Rightarrow> go_value list \<Rightarrow> smap" where
  "bound_values sprint bs args = map (\<lambda>(i, p). (p, sprint (args ! i))) bs"

section \<open>What the request construction writes\<close>

text \<open>
  The entries that a call writes into the map of query parameters (or of headers), in the
  order of the writes: \<open>bound_values\<close> for the single bindings, \<open>mapping_writes\<close> for the
  entries of the arguments at the mapping bindings (an argument that is no
  \<^verbatim>\<open>map[string]string\<close> has none). \<open>written\<close> is the map after the writes. The positions of
  a plan are in range when every bound position is the index of an argument. \<open>body_of\<close> is
  the argument at the BODY binding visited first.
\<close>

definition map_entries :: "go_value \<Rightarrow> smap" where
  "map_entries a = (case a of VStrMap m \<Rightarrow> m | _ \<Rightarrow> [])"

definition mapping_writes :: "(nat \<times> string) list \<Rightarrow> go_value list \<Rightarrow> smap" where
  "mapping_writes ms args = concat (map (\<lambda>(k, name). map_entries (args ! k)) ms)"

definition written :: "smap \<Rightarrow> smap" where
  "written writes = fold (\<lambda>(k, v). AList.update k v) writes []"

definition all_bindings :: "tagMeta \<Rightarrow> (nat \<times> string) list" where
  "all_bindings meta =
     meta_BodyParam meta @ meta_PathVars meta @ meta_Queries meta @ meta_MapQueries meta
     @ meta_Headers meta @ meta_MapHeaders meta"

definition positions_in_range :: "tagMeta \<Rightarrow> go_value list \<Rightarrow> bool" where
  "positions_in_range meta args = (\<forall>(k, name) \<in> set (all_bindings meta). k < length args)"

fun body_of :: "(nat \<times> string) list \<Rightarrow> go_value list \<Rightarrow> go_value" where
  "body_of [] args = VNil"
| "body_of ((k, name) # rest) args = args ! k"


section \<open>Two invocations of one generated function\<close>

text \<open>
  The maps of a plan have distinct keys (\<open>plan_maps\<close>). An invocation visits each map of the
  plan in some order: \<open>visits meta mv\<close> says that \<open>mv\<close> is the plan \<open>meta\<close> with its maps in the
  orders of one invocation. Two requests have the same content when they agree on context,
  verb, path, body and result cell and have the same query parameters and the same headers.
  A plan is free of collisions for given arguments when it has at most one BODY binding,
  the names of its QUERY bindings and of its HEADER bindings are distinct, no key occurs in
  the arguments of two QUERIES bindings or of two HEADERS bindings, and its PATH bindings
  cannot interfere: there is at most one, or the names are distinct and the template and the
  values are free of stray braces.
\<close>

definition same_content :: "request \<Rightarrow> request \<Rightarrow> bool" where
  "same_content r1 r2 =
     (Context r1 = Context r2 \<and> Method r1 = Method r2 \<and> Path r1 = Path r2 \<and>
      map_of (PathVars r1) = map_of (PathVars r2) \<and> map_of (Params r1) = map_of (Params r2) \<and>
      map_of (Headers r1) = map_of (Headers r2) \<and> Body r1 = Body r2 \<and> Result r1 = Result r2)"

definition plan_maps :: "tagMeta \<Rightarrow> bool" where
  "plan_maps meta =
     (distinct (map fst (meta_BodyParam meta)) \<and> distinct (map fst (meta_PathVars meta)) \<and>
      distinct (map fst (meta_Queries meta)) \<and> distinct (map fst (meta_MapQueries meta)) \<and>
      distinct (map fst (meta_Headers meta)) \<and> distinct (map fst (meta_MapHeaders meta)))"

definition visits :: "tagMeta \<Rightarrow> tagMeta \<Rightarrow> bool" where
  "visits meta mv =
     (meta_HttpMethod mv = meta_HttpMethod meta \<and> meta_Path mv = meta_Path meta \<and>
      range_order (meta_BodyParam meta) (meta_BodyParam mv) \<and>
      range_order (meta_PathVars meta) (meta_PathVars mv) \<and>
      range_order (meta_Queries meta) (meta_Queries mv) \<and>
      range_order (meta_MapQueries meta) (meta_MapQueries mv) \<and>
      range_order (meta_Headers meta) (meta_Headers mv) \<and>
      range_order (meta_MapHeaders meta) (meta_MapHeaders mv))"

definition path_independent :: "(go_value \<Rightarrow> string) \<Rightarrow> tagMeta \<Rightarrow> go_value list \<Rightarrow> bool" where
  "path_independent sprint meta args =
     (length (meta_PathVars meta) \<le> 1 \<or>
      (distinct (map snd (meta_PathVars meta)) \<and>
       (\<forall>(i, p) \<in> set (meta_PathVars meta). brace_free p \<and> brace_free (sprint (args ! i))) \<and>
       (\<exists>segs. meta_Path meta = render segs \<and> (\<forall>t \<in> set segs. wellformed_segment t))))"

definition collision_free :: "(go_value \<Rightarrow> string) \<Rightarrow> tagMeta \<Rightarrow> go_value list \<Rightarrow> bool" where
  "collision_free sprint meta args =
     (length (meta_BodyParam meta) \<le> 1 \<and> path_independent sprint meta args \<and>
      distinct (map snd (meta_Queries meta)) \<and> distinct (map snd (meta_Headers meta)) \<and>
      distinct (map fst (mapping_writes (meta_MapQueries meta) args)) \<and>
      distinct (map fst (mapping_writes (meta_MapHeaders meta) args)))"

section \<open>Stub collaborators and example plans\<close>

text \<open>
  A transport stub in the manner of a test double: it answers by a fixed function of verb and
  path and records what it was asked to execute; the world is that record. The decoder
  accepts every payload, the console is dropped, and a value prints as its text.
\<close>

type_synonym wire = "(resty_call list \<times> string \<times> string) list"

definition stubSprint :: "go_value \<Rightarrow> string" where
  "stubSprint v =
     (case v of VNil \<Rightarrow> ''<nil>'' | VCtx s \<Rightarrow> s | VString s \<Rightarrow> s | VInt i \<Rightarrow> ''<int>''
      | VStrMap m \<Rightarrow> ''<map>'' | VOther s \<Rightarrow> s)"

definition stubTransport :: "(string \<Rightarrow> string \<Rightarrow> string + response) \<Rightarrow> wire collaborators" where
  "stubTransport answer =
     \<lparr>Execute = (\<lambda>calls method path w. (answer method path, w @ [(calls, method, path)])),
      Unmarshal = (\<lambda>payload result w. (None, w)),
      Print = (\<lambda>operands w. w),
      Sprint = stubSprint,
      GetString = (\<lambda>key. [])\<rparr>"

definition plainClient :: "wire client" where
  "plainClient = \<lparr>baseURL = ''http://x'', headers = [], debug = False, middlewares = []\<rparr>"


text \<open>The call plan of \<^verbatim>\<open>`feign:"@GET /users/{id} | @Path id"`\<close>.\<close>

definition getUserMeta :: tagMeta where
  "getUserMeta = \<lparr>meta_HttpMethod = ''GET'', meta_Path = ''/users/{id}'', meta_BodyParam = [],
     meta_PathVars = [(1, ''id'')], meta_Headers = [], meta_Queries = [], meta_MapHeaders = [],
     meta_MapQueries = []\<rparr>"

definition answerWith :: "int \<Rightarrow> string \<Rightarrow> string \<Rightarrow> string \<Rightarrow> string \<Rightarrow> string + response" where
  "answerWith code status payload method path =
     Inr \<lparr>respStatusCode = code, respStatus = status, respBody = payload\<rparr>"

definition refuse :: "string \<Rightarrow> string \<Rightarrow> string \<Rightarrow> string + response" where
  "refuse cause method path = Inl cause"

text \<open>
  The call plans of
  \<^verbatim>\<open>`feign:"@GET /search | @Queries filters | @Query id"`\<close>,
  \<^verbatim>\<open>`feign:"@POST /users | @Body first | @Body second"`\<close>,
  \<^verbatim>\<open>`feign:"@GET /search | @Queries first | @Queries second"`\<close>,
  \<^verbatim>\<open>`feign:"@GET /users | @Query id | @Query id"`\<close> and
  \<^verbatim>\<open>`feign:"@GET /users/{user} | @Path user | @Query id | @Query page | @Header Authorization"`\<close>,
  with the fields that declare them.
\<close>

definition searchField :: struct_field where
  "searchField = \<lparr>field_Name = ''Search'',
     field_Type = TFunc [TInterface ''context.Context'', TMap TString TString, TString]
                        [TPtr (TStruct ''User''), TInterface ''error''],
     field_Tag = ''@GET /search | @Queries filters | @Query id''\<rparr>"

definition searchMeta :: tagMeta where
  "searchMeta = \<lparr>meta_HttpMethod = ''GET'', meta_Path = ''/search'', meta_BodyParam = [],
     meta_PathVars = [], meta_Headers = [], meta_Queries = [(2, ''id'')], meta_MapHeaders = [],
     meta_MapQueries = [(1, ''filters'')]\<rparr>"

definition twoBodiesField :: struct_field where
  "twoBodiesField = \<lparr>field_Name = ''CreateUser'',
     field_Type = TFunc [TInterface ''context.Context'', TStruct ''User'', TStruct ''User'']
                        [TPtr (TStruct ''User''), TInterface ''error''],
     field_Tag = ''@POST /users | @Body first | @Body second''\<rparr>"

definition twoBodiesMeta :: tagMeta where
  "twoBodiesMeta = \<lparr>meta_HttpMethod = ''POST'', meta_Path = ''/users'',
     meta_BodyParam = [(1, ''first''), (2, ''second'')],
     meta_PathVars = [], meta_Headers = [], meta_Queries = [], meta_MapHeaders = [],
     meta_MapQueries = []\<rparr>"

definition twoMapsField :: struct_field where
  "twoMapsField = \<lparr>field_Name = ''Search'',
     field_Type = TFunc [TInterface ''context.Context'', TMap TString TString, TMap TString TString]
                        [TPtr (TStruct ''User''), TInterface ''error''],
     field_Tag = ''@GET /search | @Queries first | @Queries second''\<rparr>"

definition twoMapsMeta :: tagMeta where
  "twoMapsMeta = \<lparr>meta_HttpMethod = ''GET'', meta_Path = ''/search'', meta_BodyParam = [],
     meta_PathVars = [], meta_Headers = [], meta_Queries = [], meta_MapHeaders = [],
     meta_MapQueries = [(1, ''first''), (2, ''second'')]\<rparr>"

definition sameNameField :: struct_field where
  "sameNameField = \<lparr>field_Name = ''FindUsers'',
     field_Type = TFunc [TInterface ''context.Context'', TString, TString]
                        [TPtr (TStruct ''User''), TInterface ''error''],
     field_Tag = ''@GET /users | @Query id | @Query id''\<rparr>"

definition sameNameMeta :: tagMeta where
  "sameNameMeta = \<lparr>meta_HttpMethod = ''GET'', meta_Path = ''/users'', meta_BodyParam = [],
     meta_PathVars = [], meta_Headers = [], meta_Queries = [(1, ''id''), (2, ''id'')],
     meta_MapHeaders = [], meta_MapQueries = []\<rparr>"

definition listMeta :: tagMeta where
  "listMeta = \<lparr>meta_HttpMethod = ''GET'', meta_Path = ''/users/{user}'', meta_BodyParam = [],
     meta_PathVars = [(1, ''user'')], meta_Headers = [(4, ''Authorization'')],
     meta_Queries = [(2, ''id''), (3, ''page'')], meta_MapHeaders = [], meta_MapQueries = []\<rparr>"


text \<open>
  A configuration store that knows the key \<^verbatim>\<open>my_api.url\<close> and one that knows no key, a client
  configuration, and the fields of a client struct: a method, and an empty-marker field whose
  tag has a segment that is no \<^verbatim>\<open>@Url\<close> segment, an \<^verbatim>\<open>@Url\<close> segment with a key and an \<^verbatim>\<open>@Url\<close>
  segment with a literal URL.
\<close>

definition configured :: "string \<Rightarrow> string" where
  "configured key = (if key = ''my_api.url'' then ''http://api.example.com'' else [])"

definition notConfigured :: "string \<Rightarrow> string" where
  "notConfigured key = []"

definition exampleConfig :: config where
  "exampleConfig = \<lparr>cfg_Url = ''http://x'', cfg_Headers = [], cfg_Debug = False\<rparr>"

definition getUserField :: struct_field where
  "getUserField = \<lparr>field_Name = ''GetUserByID'',
     field_Type = TFunc [TInterface ''context.Context'', TInt]
                        [TPtr (TStruct ''User''), TInterface ''error''],
     field_Tag = ''@GET /users/{id} | @Path id''\<rparr>"

definition twoUrlsField :: struct_field where
  "twoUrlsField = \<lparr>field_Name = ''_'', field_Type = TEmptyStruct,
     field_Tag = '' @Foo bar |  @Url   my_api.url  | @Url http://lit ''\<rparr>"

section \<open>The middleware chain\<close>






section \<open>Interceptors that pass the error on\<close>

lemma passes_error_around:
  "(\<And>e r w. fst (post e r w) = e) \<Longrightarrow> passes_error (around pre post)"
  unfolding passes_error_def around_def
proof (intro allI)
  fix "next" :: "'a handler" and req w
  assume p: "\<And>e r w. fst (post e r w) = e"
  obtain r1 w1 where a: "pre req w = (r1, w1)" by (cases "pre req w")
  obtain e r2 w2 where b: "next r1 w1 = (e, r2, w2)" by (cases "next r1 w1")
  have "fst (case pre req w of (r1, w1) \<Rightarrow> (case next r1 w1 of (e, r2, w2) \<Rightarrow> post e r2 w2))
        = fst (next r1 w1)"
    by (simp add: a b p)
  then show "\<exists>req0 w0. fst (case pre req w of (r1, w1) \<Rightarrow>
                 (case next r1 w1 of (e, r2, w2) \<Rightarrow> post e r2 w2)) = fst (next req0 w0)"
    by blast
qed

lemma passes_error_logging: "passes_error (loggingMiddleware name)"
  unfolding loggingMiddleware_def by (rule passes_error_around) simp


lemma retry_loop_error:
  "k > 0 \<or> (\<exists>req0 w0. lastErr = fst (next req0 w0)) \<Longrightarrow>
   \<exists>req0 w0. fst (retry_loop tell next k lastErr req w) = fst (next req0 w0)"
proof (induction k arbitrary: lastErr req w)
  case 0
  then show ?case by simp
next
  case (Suc k)
  obtain e r1 w1 where n: "next req w = (e, r1, w1)" by (cases "next req w")
  show ?case
  proof (cases e)
    case None
    with n have "fst (retry_loop tell next (Suc k) lastErr req w) = fst (next req w)"
      by simp
    then show ?thesis by blast
  next
    case (Some err)
    have "\<exists>req0 w0. Some err = fst (next req0 w0)"
      using n Some by (metis fst_conv)
    then have "\<exists>req0 w0. fst (retry_loop tell next k (Some err) r1 (tell (3 - k) (Some err) w1))
                 = fst (next req0 w0)"
      by (intro Suc.IH) simp
    with n Some show ?thesis by simp
  qed
qed

lemma passes_error_retry: "passes_error (retryMiddleware tell)"
  unfolding passes_error_def retryMiddleware_def
  by (intro allI retry_loop_error) simp



section \<open>Outcome classification\<close>

lemmas run_simps =
  generateFuncHandler_def buildRequest_def bindP_def contextOf_def index_def runChain_def
  generated_handler_def generated_resty_def ReplaceAll_def CallREST_def CallREST_handler_def
  CallREST_resty_def stubTransport_def stubSprint_def plainClient_def getUserMeta_def
  answerWith_def refuse_def isValidStatus_def validStatusCodes_def














text \<open>
  C6, as the code has it. The terminal handler of a generated function attaches the body,
  and sets the JSON content type for it, exactly when the body is not nil and the verb is not
  GET: for a GET the request it executes is the one of a call without body. The handler of
  \<open>CallREST\<close> attaches every body that is not nil, whatever the verb.
\<close>

theorem body_attached_unless_get:
  "(SetBody b \<in> set (generated_resty c r) \<longleftrightarrow> b = Body r \<and> Body r \<noteq> VNil \<and> Method r \<noteq> ''GET'') \<and>
   generated_resty c r =
     generated_resty c (r\<lparr>Body := VNil\<rparr>)
     @ (if Body r \<noteq> VNil \<and> Method r \<noteq> ''GET''
        then [SetHeader ''Content-Type'' ''application/json'', SetBody (Body r)] else []) \<and>
   CallREST_resty c r =
     CallREST_resty c (r\<lparr>Body := VNil\<rparr>)
     @ (if Body r \<noteq> VNil
        then [SetHeader ''Content-Type'' ''application/json'', SetBody (Body r)] else [])"
  by (auto simp: generated_resty_def CallREST_resty_def)

theorem body_attached_unless_get_witness:
  "generated_resty plainClient
     \<lparr>Context = ''ctx'', Method = ''GET'', Path = ''/users'', PathVars = [], Params = [],
      Headers = [], Body = VString ''payload'', Result = Some ''out''\<rparr>
   = [SetContext ''ctx''] \<and>
   generated_resty plainClient
     \<lparr>Context = ''ctx'', Method = ''POST'', Path = ''/users'', PathVars = [], Params = [],
      Headers = [], Body = VString ''payload'', Result = Some ''out''\<rparr>
   = [SetContext ''ctx'', SetHeader ''Content-Type'' ''application/json'',
      SetBody (VString ''payload'')]"
proof -
  have "generated_resty plainClient
          \<lparr>Context = ''ctx'', Method = m, Path = ''/users'', PathVars = [], Params = [],
           Headers = [], Body = VNil, Result = Some ''out''\<rparr> = [SetContext ''ctx'']" for m
    by (simp add: run_simps)
  then show ?thesis
    using body_attached_unless_get[of _ plainClient
        "\<lparr>Context = ''ctx'', Method = ''GET'', Path = ''/users'', PathVars = [], Params = [],
          Headers = [], Body = VString ''payload'', Result = Some ''out''\<rparr>"]
      body_attached_unless_get[of _ plainClient
        "\<lparr>Context = ''ctx'', Method = ''POST'', Path = ''/users'', PathVars = [], Params = [],
          Headers = [], Body = VString ''payload'', Result = Some ''out''\<rparr>"]
    by simp
qed

text \<open>
  The claim C6 as it is written fails for \<open>CallREST\<close>: a GET with a body executes a request
  that carries the body and the JSON content type.
\<close>

theorem CallREST_get_body_counterexample:
  "CallREST (stubTransport (answerWith 200 ''200 OK'' ''{}'')) plainClient ''ctx'' ''GET''
     ''/users'' [] [] [] (VString ''payload'') None []
   = (None, [([SetContext ''ctx'', SetHeader ''Content-Type'' ''application/json'',
               SetBody (VString ''payload'')], ''GET'', ''/users'')])"
  by (simp add: run_simps)


section \<open>Path resolution\<close>


lemma replace_scan_skip:
  "CHR ''{'' \<notin> set s \<Longrightarrow>
   replace_scan (placeholder p) new (s @ rest) = s @ replace_scan (placeholder p) new rest"
  by (induction s) (auto simp: placeholder_def)

lemma prefix_placeholder_tail:
  "brace_free p \<Longrightarrow> brace_free n \<Longrightarrow> prefix (p @ ''}'') (n @ ''}'' @ rest) \<Longrightarrow> p = n"
proof (induction p arbitrary: n)
  case Nil
  then show ?case by (cases n) (auto simp: brace_free_def)
next
  case (Cons a p)
  then show ?case by (cases n) (auto simp: brace_free_def)
qed

lemma replace_scan_hole_same:
  "replace_scan (placeholder p) new (placeholder p @ rest) = new @ replace_scan (placeholder p) new rest"
  by (simp add: placeholder_def)

lemma replace_scan_hole_other:
  assumes "brace_free p" "brace_free n" "n \<noteq> p"
  shows "replace_scan (placeholder p) new (placeholder n @ rest)
         = placeholder n @ replace_scan (placeholder p) new rest"
proof -
  have np: "\<not> prefix (placeholder p) (placeholder n @ rest)"
    using prefix_placeholder_tail[OF assms(1,2), of rest] assms(3)
    by (auto simp: placeholder_def)
  have "CHR ''{'' \<notin> set (n @ ''}'')"
    using assms(2) by (simp add: brace_free_def)
  from replace_scan_skip[OF this, of p new rest] np show ?thesis
    by (simp add: placeholder_def)
qed

lemma replace_scan_render:
  assumes "brace_free p" "\<forall>t \<in> set segs. wellformed_segment t"
  shows "replace_scan (placeholder p) new (render segs) = render (map (fill p new) segs)"
  using assms(2)
proof (induction segs)
  case Nil
  then show ?case by (simp add: render_def)
next
  case (Cons t segs)
  then have ih: "replace_scan (placeholder p) new (render segs) = render (map (fill p new) segs)"
    by simp
  show ?case
  proof (cases t)
    case (Lit s)
    with Cons.prems have "CHR ''{'' \<notin> set s" by (simp add: brace_free_def)
    from replace_scan_skip[OF this] ih Lit show ?thesis
      by (simp add: render_def)
  next
    case (Hole name)
    with Cons.prems have bf: "brace_free name" by simp
    show ?thesis
    proof (cases "name = p")
      case True
      with Hole ih replace_scan_hole_same[of p new "render segs"] show ?thesis
        by (simp add: render_def)
    next
      case False
      with Hole ih replace_scan_hole_other[OF assms(1) bf False, of new "render segs"] show ?thesis
        by (simp add: render_def)
    qed
  qed
qed

lemma ReplaceAll_render:
  assumes "brace_free p" "\<forall>t \<in> set segs. wellformed_segment t"
  shows "ReplaceAll (render segs) (''{'' @ p @ ''}'') new = render (map (fill p new) segs)"
  using replace_scan_render[OF assms] by (simp add: ReplaceAll_def placeholder_def)

lemma wellformed_fill:
  "brace_free v \<Longrightarrow> wellformed_segment t \<Longrightarrow> wellformed_segment (fill p v t)"
  by (cases t) auto

lemma substitute_fill:
  "substitute vars (fill p v t) = substitute ((p, v) # vars) t"
  by (cases t) auto

lemma formatPath_render:
  assumes "\<forall>t \<in> set segs. wellformed_segment t"
    and "\<forall>(k, v) \<in> set vars. brace_free k \<and> brace_free v"
  shows "formatPath (render segs) vars = substituted vars segs"
  using assms
proof (induction vars arbitrary: segs)
  case Nil
  have "substitute [] = render_segment"
  proof
    fix t show "substitute [] t = render_segment t" by (cases t) auto
  qed
  then show ?case by (simp add: substituted_def render_def)
next
  case (Cons kv vars)
  obtain k v where kv: "kv = (k, v)" by (cases kv)
  with Cons.prems have bf: "brace_free k" "brace_free v" by auto
  have wf: "\<forall>t \<in> set (map (fill k v) segs). wellformed_segment t"
    using Cons.prems(1) bf(2) by (auto intro: wellformed_fill)
  have "formatPath (render segs) (kv # vars) = formatPath (render (map (fill k v) segs)) vars"
    using ReplaceAll_render[OF bf(1) Cons.prems(1)] kv by simp
  also have "\<dots> = substituted vars (map (fill k v) segs)"
    using Cons.IH[OF wf] Cons.prems(2) by simp
  also have "\<dots> = substituted (kv # vars) segs"
    by (simp add: substituted_def kv substitute_fill comp_def)
  finally show ?case .
qed

lemma pathLoop_formatPath:
  "\<forall>(i, p) \<in> set bs. i < length args \<Longrightarrow>
   pathLoop sprint bs args path = Inr (formatPath path (bound_values sprint bs args))"
  by (induction bs arbitrary: path) (auto simp: index_def bound_values_def)


text \<open>
  C3, as the code has it. For a well-formed path template, PATH bindings with positions
  among the arguments and names without braces, and arguments whose string forms contain no
  brace, path resolution returns without error the template with every placeholder \<^verbatim>\<open>{x}\<close>
  that has a PATH binding named \<open>x\<close> replaced by the string form of the bound argument, and
  with every placeholder without binding left as it is; and so does \<open>formatPath\<close> for the
  entries of the path-variables map. This holds for every order in which the bindings are
  visited.
\<close>

theorem path_resolution:
  assumes "\<forall>t \<in> set segs. wellformed_segment t"
  shows "((\<forall>(i, p) \<in> set bs. i < length args \<and> brace_free p \<and> brace_free (sprint (args ! i))) \<longrightarrow>
            pathLoop sprint bs args (render segs)
              = Inr (substituted (bound_values sprint bs args) segs))
       \<and> ((\<forall>(k, v) \<in> set vars. brace_free k \<and> brace_free v) \<longrightarrow>
            formatPath (render segs) vars = substituted vars segs)"
proof (intro conjI impI)
  assume bs: "\<forall>(i, p) \<in> set bs. i < length args \<and> brace_free p \<and> brace_free (sprint (args ! i))"
  then have "\<forall>(i, p) \<in> set bs. i < length args"
    by auto
  moreover have "\<forall>(k, v) \<in> set (bound_values sprint bs args). brace_free k \<and> brace_free v"
    using bs by (auto simp: bound_values_def)
  ultimately show "pathLoop sprint bs args (render segs)
      = Inr (substituted (bound_values sprint bs args) segs)"
    using assms by (simp add: pathLoop_formatPath formatPath_render)
next
  assume "\<forall>(k, v) \<in> set vars. brace_free k \<and> brace_free v"
  with assms show "formatPath (render segs) vars = substituted vars segs"
    by (rule formatPath_render)
qed

theorem path_resolution_witness:
  "pathLoop stubSprint [(1, ''id'')] [VCtx ''ctx'', VString ''2''] ''/users/{id}/posts/{pid}/{id}''
     = Inr ''/users/2/posts/{pid}/2'' \<and>
   formatPath ''/users/{id}/posts/{pid}/{id}'' [(''id'', ''2'')] = ''/users/2/posts/{pid}/2''"
proof -
  let ?segs = "[Lit ''/users/'', Hole ''id'', Lit ''/posts/'', Hole ''pid'', Lit ''/'', Hole ''id'']"
  have wf: "\<forall>t \<in> set ?segs. wellformed_segment t"
    by (simp add: brace_free_def)
  have bs: "\<forall>(i, p) \<in> set [(1::nat, ''id'')]. i < length [VCtx ''ctx'', VString ''2''] \<and> brace_free p
              \<and> brace_free (stubSprint ([VCtx ''ctx'', VString ''2''] ! i))"
    by (simp add: brace_free_def stubSprint_def)
  have vars: "\<forall>(k, v) \<in> set [(''id'', ''2'')]. brace_free k \<and> brace_free v"
    by (simp add: brace_free_def)
  have r: "render ?segs = ''/users/{id}/posts/{pid}/{id}''"
    by (simp add: render_def placeholder_def)
  have s: "substituted (bound_values stubSprint [(1, ''id'')] [VCtx ''ctx'', VString ''2'']) ?segs
             = ''/users/2/posts/{pid}/2''"
          "substituted [(''id'', ''2'')] ?segs = ''/users/2/posts/{pid}/2''"
    by (simp_all add: substituted_def bound_values_def placeholder_def stubSprint_def)
  from path_resolution[OF wf, of "[(1, ''id'')]" "[VCtx ''ctx'', VString ''2'']" stubSprint
      "[(''id'', ''2'')]"] bs vars
  show ?thesis
    unfolding r s by blast
qed

text \<open>
  The claim C3 as it is written fails: the bindings are substituted one after the other, and
  text that one substitution puts in is substituted again by the next. With \<^verbatim>\<open>{a}\<close> bound to the
  text \<^verbatim>\<open>{b}\<close> and \<^verbatim>\<open>{b}\<close> bound to the text \<^verbatim>\<open>{a}\<close>, the template \<^verbatim>\<open>/{a}/{b}\<close> does not resolve
  to \<^verbatim>\<open>/{b}/{a}\<close>, in neither order of the two bindings.
\<close>

theorem path_resolution_counterexample:
  "pathLoop stubSprint [(1, ''a''), (2, ''b'')] [VCtx ''ctx'', VString ''{b}'', VString ''{a}'']
     ''/{a}/{b}'' = Inr ''/{a}/{a}'' \<and>
   pathLoop stubSprint [(2, ''b''), (1, ''a'')] [VCtx ''ctx'', VString ''{b}'', VString ''{a}'']
     ''/{a}/{b}'' = Inr ''/{b}/{b}'' \<and>
   substituted (bound_values stubSprint [(1, ''a''), (2, ''b'')]
      [VCtx ''ctx'', VString ''{b}'', VString ''{a}''])
     [Lit ''/'', Hole ''a'', Lit ''/'', Hole ''b''] = ''/{b}/{a}''"
  by (simp add: index_def ReplaceAll_def stubSprint_def substituted_def bound_values_def)

section \<open>Base URL resolution\<close>

lemma first_resolved_append:
  "first_resolved gs (xs @ ys) =
     (case first_resolved gs xs of Some u \<Rightarrow> Some u | None \<Rightarrow> first_resolved gs ys)"
  by (induction xs) (auto simp: first_resolved_def)

lemma url_lines_first_resolved:
  "url_lines gs lines =
     first_resolved gs
       (concat (map (\<lambda>line0. let line = TrimSpace line0 in
                       if prefix ''@Url'' line \<and> length (Fields line) \<ge> 2 then [Fields line ! 1] else [])
                 lines))"
proof (induction lines)
  case Nil
  then show ?case by (simp add: first_resolved_def)
next
  case (Cons l ls)
  then show ?case
    by (simp add: first_resolved_append Let_def) (simp add: first_resolved_def)
qed

lemma url_fields_first_resolved: "url_fields gs t = first_resolved gs (declared_urls t)"
proof (induction t)
  case Nil
  then show ?case by (simp add: first_resolved_def declared_urls_def)
next
  case (Cons f t)
  have "declared_urls (f # t)
        = (if field_Type f = TEmptyStruct then declared_urls_of_tag (field_Tag f) else []) @ declared_urls t"
    by (simp add: declared_urls_def)
  with Cons show ?case
    by (simp add: first_resolved_append url_lines_first_resolved declared_urls_of_tag_def
        split: option.splits) (simp add: first_resolved_def)
qed

text \<open>
  C8, as the code has it. For every client struct, the base URL is the resolution of the
  first declared \<^verbatim>\<open>@Url\<close> value whose resolution is not empty, and the URL the client was
  constructed with if there is none; a value that starts with \<^verbatim>\<open>http://\<close> or \<^verbatim>\<open>https://\<close>
  resolves to itself, any other value to its lookup in the configuration. So for the first
  declared value \<open>v\<close>: if \<open>v\<close> starts with one of the two prefixes the base URL is \<open>v\<close>;
  otherwise, if the lookup of \<open>v\<close> is not empty, the base URL is that lookup; otherwise the
  values declared after \<open>v\<close> are tried in the same way, and the URL of the construction is
  the base URL when none is left. Without a declared value the base URL is the URL of the
  construction.
\<close>

theorem base_url_resolution:
  "Create_baseUrl getString (New cfg) t =
     (case first_resolved getString (declared_urls t) of Some url \<Rightarrow> url | None \<Rightarrow> cfg_Url cfg) \<and>
   (declared_urls t = v # rest \<and> (prefix ''http://'' v \<or> prefix ''https://'' v) \<longrightarrow>
      Create_baseUrl getString (New cfg) t = v) \<and>
   (declared_urls t = v # rest \<and> \<not> (prefix ''http://'' v \<or> prefix ''https://'' v) \<and>
      getString v \<noteq> [] \<longrightarrow>
      Create_baseUrl getString (New cfg) t = getString v) \<and>
   (declared_urls t = v # rest \<and> \<not> (prefix ''http://'' v \<or> prefix ''https://'' v) \<and>
      getString v = [] \<longrightarrow>
      Create_baseUrl getString (New cfg) t =
        (case first_resolved getString rest of Some url \<Rightarrow> url | None \<Rightarrow> cfg_Url cfg)) \<and>
   (declared_urls t = [] \<longrightarrow> Create_baseUrl getString (New cfg) t = cfg_Url cfg)"
proof -
  have m: "Create_baseUrl getString (New cfg) t =
     (case first_resolved getString (declared_urls t) of Some url \<Rightarrow> url | None \<Rightarrow> cfg_Url cfg)"
    by (simp add: Create_baseUrl_def New_def extractBaseURLFromStruct_def url_fields_first_resolved)
  show ?thesis
    unfolding m by (auto simp: first_resolved_def resolveUrl_def)
qed

theorem base_url_resolution_witness:
  "declared_urls [getUserField, twoUrlsField] = [''my_api.url'', ''http://lit''] \<and>
   declared_urls [getUserField] = [] \<and>
   Create_baseUrl configured (New exampleConfig) [getUserField, twoUrlsField]
     = ''http://api.example.com'' \<and>
   Create_baseUrl notConfigured (New exampleConfig) [getUserField, twoUrlsField] = ''http://lit'' \<and>
   Create_baseUrl notConfigured (New exampleConfig) [getUserField] = ''http://x''"
proof -
  have d: "declared_urls [getUserField, twoUrlsField] = ''my_api.url'' # [''http://lit'']"
    by code_simp
  have e: "declared_urls [getUserField] = []"
    by code_simp
  have p: "\<not> (prefix ''http://'' ''my_api.url'' \<or> prefix ''https://'' ''my_api.url'')"
    by simp
  have c: "configured ''my_api.url'' \<noteq> []" "configured ''my_api.url'' = ''http://api.example.com''"
    by (simp_all add: configured_def)
  have n: "notConfigured ''my_api.url'' = []"
    by (simp add: notConfigured_def)
  have f: "first_resolved notConfigured [''http://lit''] = Some ''http://lit''"
    by (simp add: first_resolved_def resolveUrl_def)
  note t1 = base_url_resolution[where t = "[getUserField, twoUrlsField]" and getString = configured
      and cfg = exampleConfig and v = "''my_api.url''" and rest = "[''http://lit'']"]
  note t2 = base_url_resolution[where t = "[getUserField, twoUrlsField]" and getString = notConfigured
      and cfg = exampleConfig and v = "''my_api.url''" and rest = "[''http://lit'']"]
  note t3 = base_url_resolution[where t = "[getUserField]" and getString = notConfigured
      and cfg = exampleConfig]
  have r1: "Create_baseUrl configured (New exampleConfig) [getUserField, twoUrlsField]
              = ''http://api.example.com''"
    using mp[OF t1[THEN conjunct2, THEN conjunct2, THEN conjunct1] conjI[OF d conjI[OF p c(1)]]]
    by (simp only: c(2))
  have r2: "Create_baseUrl notConfigured (New exampleConfig) [getUserField, twoUrlsField] = ''http://lit''"
    using mp[OF t2[THEN conjunct2, THEN conjunct2, THEN conjunct2, THEN conjunct1]
        conjI[OF d conjI[OF p n]]]
    by (simp only: f option.case)
  have r3: "Create_baseUrl notConfigured (New exampleConfig) [getUserField] = ''http://x''"
    using mp[OF t3[THEN conjunct2, THEN conjunct2, THEN conjunct2, THEN conjunct2] e]
    by (simp add: exampleConfig_def)
  from d e r1 r2 r3 show ?thesis
    by simp
qed

text \<open>
  The claim C8 as it is written fails: a literal URL that the annotation declares is not
  used when a segment before it has a key that the configuration knows.
\<close>

theorem literal_url_counterexample:
  "declared_urls [twoUrlsField] = [''my_api.url'', ''http://lit''] \<and>
   Create_baseUrl configured (New exampleConfig) [twoUrlsField] = ''http://api.example.com''"
  by code_simp

section \<open>Request construction\<close>

lemma fold_update_map_of:
  "map_of (fold (\<lambda>(k, v). AList.update k v) xs acc) = map_of acc ++ map_of (rev xs)"
proof (induction xs arbitrary: acc)
  case Nil
  then show ?case by simp
next
  case (Cons x xs)
  obtain k v where x: "x = (k, v)" by (cases x)
  have "map_of (fold (\<lambda>(k, v). AList.update k v) (x # xs) acc)
        = map_of (AList.update k v acc) ++ map_of (rev xs)"
    using Cons.IH[of "AList.update k v acc"] x by simp
  also have "\<dots> = map_of acc ++ map_of (rev (x # xs))"
    by (simp add: x update_conv' map_add_def fun_eq_iff split: option.splits)
  finally show ?case .
qed

lemma written_map_of: "map_of (written ws) = map_of (rev ws)"
  by (simp add: written_def fold_update_map_of)

lemma written_keys: "fst ` set (written ws) = fst ` set ws"
proof -
  have "dom (map_of (written ws)) = dom (map_of (rev ws))"
    by (simp add: written_map_of)
  then show ?thesis
    by (simp add: dom_map_of_conv_image_fst)
qed

lemma singleLoop_fold:
  "\<forall>(k, name) \<in> set qs. k < length args \<Longrightarrow>
   singleLoop sprint qs args m
     = Inr (fold (\<lambda>(k, v). AList.update k v) (bound_values sprint qs args) m)"
  by (induction qs arbitrary: m) (auto simp: index_def bound_values_def)

lemma mapLoop_fold:
  "\<forall>(k, name) \<in> set ms. k < length args \<Longrightarrow>
   mapLoop ms args acc = Inr (fold (\<lambda>(k, v). AList.update k v) (mapping_writes ms args) acc)"
proof (induction ms arbitrary: acc)
  case Nil
  then show ?case by (simp add: mapping_writes_def)
next
  case (Cons x ms)
  obtain k name where x: "x = (k, name)" by (cases x)
  with Cons.prems have k: "k < length args" and rest: "\<forall>(k, name) \<in> set ms. k < length args"
    by auto
  show ?case
    using Cons.IH[OF rest] k x
    by (cases "args ! k") (simp_all add: index_def mapping_writes_def map_entries_def)
qed

lemma bodyLoop_body_of:
  "\<forall>(k, name) \<in> set bs. k < length args \<Longrightarrow> bodyLoop bs args = Inr (body_of bs args)"
  by (cases bs) (auto simp: index_def)

lemma buildRequest_in_range:
  assumes "contextOf args = Inr ctx" "positions_in_range meta args"
  shows "buildRequest sprint meta args =
     Inr \<lparr>Context = ctx, Method = meta_HttpMethod meta,
          Path = formatPath (meta_Path meta) (bound_values sprint (meta_PathVars meta) args),
          PathVars = [],
          Params = written (bound_values sprint (meta_Queries meta) args
                            @ mapping_writes (meta_MapQueries meta) args),
          Headers = written (bound_values sprint (meta_Headers meta) args
                             @ mapping_writes (meta_MapHeaders meta) args),
          Body = body_of (meta_BodyParam meta) args, Result = Some ''out''\<rparr>"
proof -
  from assms(2) have r:
    "\<forall>(k, name) \<in> set (meta_BodyParam meta). k < length args"
    "\<forall>(k, name) \<in> set (meta_PathVars meta). k < length args"
    "\<forall>(k, name) \<in> set (meta_Queries meta). k < length args"
    "\<forall>(k, name) \<in> set (meta_MapQueries meta). k < length args"
    "\<forall>(k, name) \<in> set (meta_Headers meta). k < length args"
    "\<forall>(k, name) \<in> set (meta_MapHeaders meta). k < length args"
    by (auto simp: positions_in_range_def all_bindings_def)
  show ?thesis
    unfolding buildRequest_def
    by (simp add: bindP_def assms(1) bodyLoop_body_of[OF r(1)] pathLoop_formatPath[OF r(2)]
        singleLoop_fold[OF r(3)] mapLoop_fold[OF r(4)] singleLoop_fold[OF r(5)]
        mapLoop_fold[OF r(6)] written_def)
qed

text \<open>
  C4, as the code has it. When argument 0 is a context and the bound positions are in range,
  the request is built without error, and its query parameters are the single bindings
  overridden by the entries of the mapping arguments: the keys are the names of the QUERY
  bindings together with the keys of the arguments at the QUERIES bindings; all single
  bindings are written first and all mapping entries after them, so that on a collision the
  entry written last stays, and an entry of a mapping argument always wins over a single
  binding. Within the single bindings and within the mapping bindings the order of the
  writes is the order in which the call visits the bindings. The same holds for the headers.
\<close>

theorem query_and_header_merge:
  assumes "contextOf args = Inr ctx" and "positions_in_range meta args"
  shows "\<exists>r. buildRequest sprint meta args = Inr r \<and>
     map_of (Params r) = map_of (rev (bound_values sprint (meta_Queries meta) args))
                         ++ map_of (rev (mapping_writes (meta_MapQueries meta) args)) \<and>
     fst ` set (Params r) = snd ` set (meta_Queries meta)
                            \<union> fst ` set (mapping_writes (meta_MapQueries meta) args) \<and>
     map_of (Headers r) = map_of (rev (bound_values sprint (meta_Headers meta) args))
                          ++ map_of (rev (mapping_writes (meta_MapHeaders meta) args)) \<and>
     fst ` set (Headers r) = snd ` set (meta_Headers meta)
                             \<union> fst ` set (mapping_writes (meta_MapHeaders meta) args)"
proof -
  have names: "fst ` set (bound_values sprint bs args) = snd ` set bs" for bs
    by (force simp: bound_values_def)
  show ?thesis
    unfolding buildRequest_in_range[OF assms]
    by (simp add: written_map_of written_keys names image_Un)
qed

theorem query_and_header_merge_witness:
  "contextOf [VCtx ''ctx'', VStrMap [(''name'', ''x''), (''id'', ''from-map'')], VString ''from-single'']
     = Inr ''ctx'' \<and>
   positions_in_range searchMeta
     [VCtx ''ctx'', VStrMap [(''name'', ''x''), (''id'', ''from-map'')], VString ''from-single''] \<and>
   (\<exists>r. buildRequest stubSprint searchMeta
      [VCtx ''ctx'', VStrMap [(''name'', ''x''), (''id'', ''from-map'')], VString ''from-single''] = Inr r \<and>
     map_of (Params r) = [''id'' \<mapsto> ''from-single''] ++ [''name'' \<mapsto> ''x'', ''id'' \<mapsto> ''from-map''])"
proof -
  let ?args = "[VCtx ''ctx'', VStrMap [(''name'', ''x''), (''id'', ''from-map'')], VString ''from-single'']"
  have a: "contextOf ?args = Inr ''ctx''"
    by (simp add: contextOf_def index_def)
  have b: "positions_in_range searchMeta ?args"
    by (simp add: positions_in_range_def all_bindings_def searchMeta_def)
  have q: "map_of (rev (bound_values stubSprint (meta_Queries searchMeta) ?args))
             = [''id'' \<mapsto> ''from-single'']"
    by (simp add: searchMeta_def bound_values_def stubSprint_def)
  have m: "map_of (rev (mapping_writes (meta_MapQueries searchMeta) ?args))
             = [''name'' \<mapsto> ''x'', ''id'' \<mapsto> ''from-map'']"
    by (simp add: searchMeta_def mapping_writes_def map_entries_def)
  have "\<exists>r. buildRequest stubSprint searchMeta ?args = Inr r \<and>
     map_of (Params r) = [''id'' \<mapsto> ''from-single''] ++ [''name'' \<mapsto> ''x'', ''id'' \<mapsto> ''from-map'']"
    using query_and_header_merge[OF a b, of stubSprint] unfolding q m
    by (elim exE conjE) (rule exI, rule conjI, assumption, assumption)
  with a b show ?thesis
    by (intro conjI)
qed

text \<open>
  The claim C4 as it is written fails: with the QUERIES binding declared before a QUERY
  binding of a name that is also a key of the mapping argument, the entry of the mapping
  argument stays, although the QUERY binding is the later one in declaration order. And
  among two QUERIES bindings with a common key the entry of the first-declared one stays
  when the call visits the second-declared binding first.
\<close>

theorem later_declaration_counterexample:
  "parseTagInfo searchField = Inr searchMeta \<and>
   buildRequest stubSprint searchMeta
      [VCtx ''ctx'', VStrMap [(''id'', ''from-map'')], VString ''from-single'']
   = Inr \<lparr>Context = ''ctx'', Method = ''GET'', Path = ''/search'', PathVars = [],
          Params = [(''id'', ''from-map'')], Headers = [], Body = VNil, Result = Some ''out''\<rparr> \<and>
   parseTagInfo twoMapsField = Inr twoMapsMeta \<and>
   visits twoMapsMeta (twoMapsMeta\<lparr>meta_MapQueries := [(2, ''second''), (1, ''first'')]\<rparr>) \<and>
   buildRequest stubSprint (twoMapsMeta\<lparr>meta_MapQueries := [(2, ''second''), (1, ''first'')]\<rparr>)
      [VCtx ''ctx'', VStrMap [(''k'', ''from-first'')], VStrMap [(''k'', ''from-second'')]]
   = Inr \<lparr>Context = ''ctx'', Method = ''GET'', Path = ''/search'', PathVars = [],
          Params = [(''k'', ''from-first'')], Headers = [], Body = VNil, Result = Some ''out''\<rparr>"
  by code_simp

section \<open>The body binding\<close>

lemma range_order_front:
  assumes "distinct (map fst m)" "x \<in> set m"
  shows "range_order m (x # remove1 x m)"
proof -
  from assms(1) have d: "distinct m" and inj: "inj_on fst (set m)"
    by (auto simp: distinct_map)
  have s: "set (x # remove1 x m) = set m"
    using assms(2) d by auto
  have "distinct (x # remove1 x m)"
    using d by simp
  moreover have "inj_on fst (set (x # remove1 x m))"
    using inj s by simp
  ultimately have "distinct (map fst (x # remove1 x m))"
    by (simp only: distinct_map)
  with s show ?thesis
    by (simp add: range_order_def)
qed

text \<open>
  C7, as the code has it. For a plan with BODY bindings at positions that are in range, each
  invocation uses exactly one body without error: the argument of the BODY binding that the
  loop over the map of BODY bindings visits first. With one BODY binding that is its
  argument. With several, each declared BODY binding is the one used under some order of
  the visit, so the body is the argument of one of the declared BODY bindings and not
  always that of the first one declared.
\<close>

theorem body_binding_choice:
  assumes "range_order m ord" and "m \<noteq> []" and "\<forall>(k, name) \<in> set m. k < length args"
  shows "(\<exists>(k, name) \<in> set m. bodyLoop ord args = Inr (args ! k)) \<and>
         (\<forall>(k, name) \<in> set m. distinct (map fst m) \<longrightarrow>
            (\<exists>ord'. range_order m ord' \<and> bodyLoop ord' args = Inr (args ! k))) \<and>
         (length m = 1 \<longrightarrow> bodyLoop ord args = Inr (args ! fst (hd m)))"
proof (intro conjI)
  from assms(1,2) obtain k name rest where ord: "ord = (k, name) # rest"
    by (cases ord) (auto simp: range_order_def)
  with assms(1) have mem: "(k, name) \<in> set m"
    by (auto simp: range_order_def)
  with assms(3) have "k < length args"
    by auto
  then have b: "bodyLoop ord args = Inr (args ! k)"
    by (simp add: ord index_def)
  with mem show "\<exists>(k, name) \<in> set m. bodyLoop ord args = Inr (args ! k)"
    by auto
  show "length m = 1 \<longrightarrow> bodyLoop ord args = Inr (args ! fst (hd m))"
  proof
    assume "length m = 1"
    then obtain x where "m = [x]"
      by (cases m) auto
    with mem b show "bodyLoop ord args = Inr (args ! fst (hd m))"
      by auto
  qed
  show "\<forall>(k, name) \<in> set m. distinct (map fst m) \<longrightarrow>
          (\<exists>ord'. range_order m ord' \<and> bodyLoop ord' args = Inr (args ! k))"
  proof (clarify)
    fix k name
    assume x: "(k, name) \<in> set m" and d: "distinct (map fst m)"
    from x assms(3) have "k < length args"
      by auto
    then have "bodyLoop ((k, name) # remove1 (k, name) m) args = Inr (args ! k)"
      by (simp add: index_def)
    with range_order_front[OF d x]
    show "\<exists>ord'. range_order m ord' \<and> bodyLoop ord' args = Inr (args ! k)"
      by blast
  qed
qed

theorem body_binding_choice_witness:
  "range_order (meta_BodyParam twoBodiesMeta) [(1, ''first''), (2, ''second'')] \<and>
   bodyLoop [(1, ''first''), (2, ''second'')] [VCtx ''ctx'', VOther ''user 1'', VOther ''user 2'']
     = Inr (VOther ''user 1'') \<and>
   (\<exists>ord'. range_order (meta_BodyParam twoBodiesMeta) ord' \<and>
      bodyLoop ord' [VCtx ''ctx'', VOther ''user 1'', VOther ''user 2''] = Inr (VOther ''user 2''))"
proof -
  let ?args = "[VCtx ''ctx'', VOther ''user 1'', VOther ''user 2'']"
  have a: "range_order (meta_BodyParam twoBodiesMeta) [(1, ''first''), (2, ''second'')]"
    by (simp add: range_order_def twoBodiesMeta_def)
  have b: "meta_BodyParam twoBodiesMeta \<noteq> []"
    by (simp add: twoBodiesMeta_def)
  have c: "\<forall>(k, name) \<in> set (meta_BodyParam twoBodiesMeta). k < length ?args"
    by (simp add: twoBodiesMeta_def)
  from body_binding_choice[OF a b c] a show ?thesis
    by (simp add: twoBodiesMeta_def index_def)
qed

text \<open>
  The claim C7 as it is written fails: for two BODY bindings the loop may visit the second
  one first, and the body is then the argument of the second binding.
\<close>

theorem first_declared_body_counterexample:
  "parseTagInfo twoBodiesField = Inr twoBodiesMeta \<and>
   range_order (meta_BodyParam twoBodiesMeta) [(2, ''second''), (1, ''first'')] \<and>
   buildRequest stubSprint (twoBodiesMeta\<lparr>meta_BodyParam := [(2, ''second''), (1, ''first'')]\<rparr>)
     [VCtx ''ctx'', VOther ''user 1'', VOther ''user 2'']
   = Inr \<lparr>Context = ''ctx'', Method = ''POST'', Path = ''/users'', PathVars = [], Params = [],
          Headers = [], Body = VOther ''user 2'', Result = Some ''out''\<rparr>"
  by code_simp

section \<open>Mapping bindings\<close>












section \<open>Independence of invocations\<close>

lemma range_order_short: "range_order m ord \<Longrightarrow> length m \<le> 1 \<Longrightarrow> ord = m"
proof -
  assume r: "range_order m ord" and l: "length m \<le> 1"
  show ?thesis
  proof (cases m)
    case Nil
    with r show ?thesis by (simp add: range_order_def)
  next
    case (Cons x xs)
    with l have m: "m = [x]" by simp
    with r have s: "set ord = {x}" and d: "distinct ord"
      by (auto simp: range_order_def distinct_map)
    then show ?thesis
      using m by (cases ord; cases "tl ord") auto
  qed
qed

lemma range_order_mset:
  "distinct (map fst m) \<Longrightarrow> range_order m ord \<Longrightarrow> mset ord = mset m"
proof -
  assume d: "distinct (map fst m)" and r: "range_order m ord"
  from d have "distinct m" by (simp add: distinct_map)
  moreover from r have "distinct ord" "set ord = set m"
    by (simp_all add: range_order_def distinct_map)
  ultimately show ?thesis
    by (simp add: set_eq_iff_mset_eq_distinct)
qed

lemma mapping_writes_mset:
  assumes "mset ms1 = mset ms2"
  shows "mset (mapping_writes ms1 args) = mset (mapping_writes ms2 args)"
proof -
  have "mset (mapping_writes ms args)
        = sum_mset (image_mset (\<lambda>(k, name). mset (map_entries (args ! k))) (mset ms))" for ms
    by (induction ms) (auto simp: mapping_writes_def)
  with assms show ?thesis by simp
qed

lemma map_of_rev_eq:
  assumes "mset xs = mset ys" "distinct (map fst xs)"
  shows "map_of (rev xs) = map_of (rev ys)"
proof -
  have "mset (map fst xs) = mset (map fst ys)"
    using assms(1) by simp
  from mset_eq_imp_distinct_iff[OF this] assms(2) have "distinct (map fst ys)"
    by simp
  moreover have "set xs = set ys"
    using assms(1) by (rule mset_eq_setD)
  ultimately have "map_of xs = map_of ys"
    using assms(2) by (simp add: map_of_inject_set)
  moreover have "map_of (rev zs) = map_of zs" if "distinct (map fst zs)" for zs :: "('a \<times> 'b) list"
  proof -
    from that have "distinct (map fst (rev zs))"
      by (simp add: rev_map[symmetric])
    with that show ?thesis
      by (subst map_of_inject_set) simp_all
  qed
  ultimately show ?thesis
    using assms(2) \<open>distinct (map fst ys)\<close> by simp
qed

lemma bound_values_mset:
  "mset bs1 = mset bs2 \<Longrightarrow> mset (bound_values sprint bs1 args) = mset (bound_values sprint bs2 args)"
  by (simp add: bound_values_def)

lemma bound_values_names: "map fst (bound_values sprint bs args) = map snd bs"
  by (induction bs) (auto simp: bound_values_def)

lemma substituted_cong: "map_of v1 = map_of v2 \<Longrightarrow> substituted v1 segs = substituted v2 segs"
proof -
  assume e: "map_of v1 = map_of v2"
  have "substitute v1 = substitute v2"
  proof
    fix t show "substitute v1 t = substitute v2 t"
      by (cases t) (simp_all add: e)
  qed
  then show ?thesis
    by (simp add: substituted_def)
qed

lemma visits_in_range:
  "visits meta mv \<Longrightarrow> positions_in_range meta args \<Longrightarrow> positions_in_range mv args"
  by (auto simp: visits_def range_order_def positions_in_range_def all_bindings_def)

lemma path_order_independent:
  assumes "distinct (map fst m)" "range_order m ord" "range_order m ord'"
    and "length m \<le> 1 \<or>
      (distinct (map snd m) \<and>
       (\<forall>(i, p) \<in> set m. brace_free p \<and> brace_free (sprint (args ! i))) \<and>
       (\<exists>segs. path = render segs \<and> (\<forall>t \<in> set segs. wellformed_segment t)))"
  shows "formatPath path (bound_values sprint ord args) = formatPath path (bound_values sprint ord' args)"
  using assms(4)
proof
  assume "length m \<le> 1"
  with assms(2,3) have "ord = m" "ord' = m"
    by (simp_all add: range_order_short)
  then show ?thesis
    by simp
next
  assume h: "distinct (map snd m) \<and>
       (\<forall>(i, p) \<in> set m. brace_free p \<and> brace_free (sprint (args ! i))) \<and>
       (\<exists>segs. path = render segs \<and> (\<forall>t \<in> set segs. wellformed_segment t))"
  then obtain segs where p: "path = render segs" and wf: "\<forall>t \<in> set segs. wellformed_segment t"
    by blast
  have ms: "mset ord = mset m" "mset ord' = mset m"
    using assms(1-3) by (simp_all add: range_order_mset)
  have bf: "\<forall>(k, v) \<in> set (bound_values sprint vs args). brace_free k \<and> brace_free v"
    if "set vs = set m" for vs
    using h that by (auto simp: bound_values_def)
  have so: "set ord = set m" "set ord' = set m"
    using assms(2,3) by (simp_all add: range_order_def)
  have dn: "distinct (map snd vs)" if "mset vs = mset m" for vs
  proof -
    from that have "mset (map snd vs) = mset (map snd m)"
      by simp
    from mset_eq_imp_distinct_iff[OF this] h show ?thesis
      by simp
  qed
  have d: "distinct (map fst (bound_values sprint ord args))"
    using dn[OF ms(1)] by (simp add: bound_values_names)
  have d': "distinct (map fst (bound_values sprint ord' args))"
    using dn[OF ms(2)] by (simp add: bound_values_names)
  have "set (bound_values sprint ord args) = set (bound_values sprint ord' args)"
    using so by (simp add: bound_values_def)
  with d d' have "map_of (bound_values sprint ord args) = map_of (bound_values sprint ord' args)"
    by (simp add: map_of_inject_set)
  then have "substituted (bound_values sprint ord args) segs
             = substituted (bound_values sprint ord' args) segs"
    by (rule substituted_cong)
  then show ?thesis
    unfolding p formatPath_render[OF wf bf[OF so(1)]] formatPath_render[OF wf bf[OF so(2)]] .
qed

lemma written_order_independent:
  assumes "distinct (map fst qm)" "range_order qm q1" "range_order qm q2"
    and "distinct (map fst mm)" "range_order mm m1" "range_order mm m2"
    and "distinct (map snd qm)" "distinct (map fst (mapping_writes mm args))"
  shows "map_of (written (bound_values sprint q1 args @ mapping_writes m1 args))
         = map_of (written (bound_values sprint q2 args @ mapping_writes m2 args))"
proof -
  have dq: "distinct (map fst (bound_values sprint qm args))"
    using assms(7) by (simp add: bound_values_names)
  have q: "map_of (rev (bound_values sprint qm args)) = map_of (rev (bound_values sprint qv args))"
    if "range_order qm qv" for qv
  proof -
    from range_order_mset[OF assms(1) that]
    have "mset (bound_values sprint qm args) = mset (bound_values sprint qv args)"
      by (intro bound_values_mset) simp
    then show ?thesis
      using dq by (rule map_of_rev_eq)
  qed
  have m: "map_of (rev (mapping_writes mm args)) = map_of (rev (mapping_writes mv args))"
    if "range_order mm mv" for mv
  proof -
    from range_order_mset[OF assms(4) that]
    have "mset (mapping_writes mm args) = mset (mapping_writes mv args)"
      by (intro mapping_writes_mset) simp
    then show ?thesis
      using assms(8) by (rule map_of_rev_eq)
  qed
  show ?thesis
    using q[OF assms(2)] q[OF assms(3)] m[OF assms(5)] m[OF assms(6)]
    by (simp add: written_map_of)
qed

text \<open>
  C9, as the code has it. The request of an invocation is a function of the plan, the
  arguments and the orders in which the invocation visits the maps of the plan, and of
  nothing else: \<open>buildRequest\<close> has no access to the world or to an earlier call. For a plan
  that is free of collisions for the arguments, any two invocations with these arguments,
  whatever the orders of their visits, build requests with the same content.
\<close>

theorem request_construction_deterministic:
  assumes plan: "plan_maps meta"
    and v1: "visits meta mv1" and v2: "visits meta mv2"
    and ctx: "contextOf args = Inr ctx"
    and pos: "positions_in_range meta args"
    and free: "collision_free sprint meta args"
  shows "\<exists>r1 r2. buildRequest sprint mv1 args = Inr r1 \<and> buildRequest sprint mv2 args = Inr r2 \<and>
           same_content r1 r2"
proof -
  note b1 = buildRequest_in_range[OF ctx visits_in_range[OF v1 pos], of sprint]
  note b2 = buildRequest_in_range[OF ctx visits_in_range[OF v2 pos], of sprint]
  have body: "body_of (meta_BodyParam mv1) args = body_of (meta_BodyParam mv2) args"
  proof -
    from free have "length (meta_BodyParam meta) \<le> 1"
      by (simp add: collision_free_def)
    with v1 v2 have "meta_BodyParam mv1 = meta_BodyParam meta" "meta_BodyParam mv2 = meta_BodyParam meta"
      by (simp_all add: visits_def range_order_short)
    then show ?thesis by simp
  qed
  have path: "formatPath (meta_Path mv1) (bound_values sprint (meta_PathVars mv1) args)
              = formatPath (meta_Path mv2) (bound_values sprint (meta_PathVars mv2) args)"
  proof -
    have p: "meta_Path mv1 = meta_Path meta" "meta_Path mv2 = meta_Path meta"
      using v1 v2 by (simp_all add: visits_def)
    have "formatPath (meta_Path meta) (bound_values sprint (meta_PathVars mv1) args)
          = formatPath (meta_Path meta) (bound_values sprint (meta_PathVars mv2) args)"
    proof (rule path_order_independent)
      show "distinct (map fst (meta_PathVars meta))"
        using plan by (simp add: plan_maps_def)
      show "range_order (meta_PathVars meta) (meta_PathVars mv1)"
        using v1 by (simp add: visits_def)
      show "range_order (meta_PathVars meta) (meta_PathVars mv2)"
        using v2 by (simp add: visits_def)
      show "length (meta_PathVars meta) \<le> 1 \<or>
        (distinct (map snd (meta_PathVars meta)) \<and>
         (\<forall>(i, p) \<in> set (meta_PathVars meta). brace_free p \<and> brace_free (sprint (args ! i))) \<and>
         (\<exists>segs. meta_Path meta = render segs \<and> (\<forall>t \<in> set segs. wellformed_segment t)))"
        using free by (simp add: collision_free_def path_independent_def)
    qed
    then show ?thesis
      by (simp only: p)
  qed
  have params: "map_of (written (bound_values sprint (meta_Queries mv1) args
                                  @ mapping_writes (meta_MapQueries mv1) args))
                = map_of (written (bound_values sprint (meta_Queries mv2) args
                                    @ mapping_writes (meta_MapQueries mv2) args))"
    using plan v1 v2 free
    by (intro written_order_independent[where qm = "meta_Queries meta" and mm = "meta_MapQueries meta"])
       (simp_all add: plan_maps_def visits_def collision_free_def)
  have hdrs: "map_of (written (bound_values sprint (meta_Headers mv1) args
                                @ mapping_writes (meta_MapHeaders mv1) args))
              = map_of (written (bound_values sprint (meta_Headers mv2) args
                                  @ mapping_writes (meta_MapHeaders mv2) args))"
    using plan v1 v2 free
    by (intro written_order_independent[where qm = "meta_Headers meta" and mm = "meta_MapHeaders meta"])
       (simp_all add: plan_maps_def visits_def collision_free_def)
  have meth: "meta_HttpMethod mv1 = meta_HttpMethod mv2"
    using v1 v2 by (simp add: visits_def)
  have "same_content
          \<lparr>Context = ctx, Method = meta_HttpMethod mv1,
           Path = formatPath (meta_Path mv1) (bound_values sprint (meta_PathVars mv1) args),
           PathVars = [],
           Params = written (bound_values sprint (meta_Queries mv1) args
                             @ mapping_writes (meta_MapQueries mv1) args),
           Headers = written (bound_values sprint (meta_Headers mv1) args
                              @ mapping_writes (meta_MapHeaders mv1) args),
           Body = body_of (meta_BodyParam mv1) args, Result = Some ''out''\<rparr>
          \<lparr>Context = ctx, Method = meta_HttpMethod mv2,
           Path = formatPath (meta_Path mv2) (bound_values sprint (meta_PathVars mv2) args),
           PathVars = [],
           Params = written (bound_values sprint (meta_Queries mv2) args
                             @ mapping_writes (meta_MapQueries mv2) args),
           Headers = written (bound_values sprint (meta_Headers mv2) args
                              @ mapping_writes (meta_MapHeaders mv2) args),
           Body = body_of (meta_BodyParam mv2) args, Result = Some ''out''\<rparr>"
    unfolding same_content_def by (simp only: body path params hdrs meth request.simps)
  with b1 b2 show ?thesis
    by (intro exI conjI)
qed

theorem request_construction_deterministic_witness:
  "plan_maps listMeta \<and> visits listMeta listMeta \<and>
   visits listMeta (listMeta\<lparr>meta_Queries := [(3, ''page''), (2, ''id'')]\<rparr>) \<and>
   contextOf [VCtx ''ctx'', VString ''42'', VString ''7'', VString ''2'', VString ''token''] = Inr ''ctx'' \<and>
   positions_in_range listMeta
     [VCtx ''ctx'', VString ''42'', VString ''7'', VString ''2'', VString ''token''] \<and>
   collision_free stubSprint listMeta
     [VCtx ''ctx'', VString ''42'', VString ''7'', VString ''2'', VString ''token''] \<and>
   (\<exists>r1 r2.
      buildRequest stubSprint listMeta
        [VCtx ''ctx'', VString ''42'', VString ''7'', VString ''2'', VString ''token''] = Inr r1 \<and>
      buildRequest stubSprint (listMeta\<lparr>meta_Queries := [(3, ''page''), (2, ''id'')]\<rparr>)
        [VCtx ''ctx'', VString ''42'', VString ''7'', VString ''2'', VString ''token''] = Inr r2 \<and>
      same_content r1 r2)"
proof -
  let ?args = "[VCtx ''ctx'', VString ''42'', VString ''7'', VString ''2'', VString ''token'']"
  have a: "plan_maps listMeta"
    by (simp add: plan_maps_def listMeta_def)
  have b: "visits listMeta listMeta"
    by (simp add: visits_def range_order_def listMeta_def)
  have c: "visits listMeta (listMeta\<lparr>meta_Queries := [(3, ''page''), (2, ''id'')]\<rparr>)"
    by (simp add: visits_def range_order_def listMeta_def insert_commute)
  have d: "contextOf ?args = Inr ''ctx''"
    by (simp add: contextOf_def index_def)
  have e: "positions_in_range listMeta ?args"
    by (simp add: positions_in_range_def all_bindings_def listMeta_def)
  have f: "collision_free stubSprint listMeta ?args"
    by (simp add: collision_free_def path_independent_def listMeta_def mapping_writes_def)
  from request_construction_deterministic[OF a b c d e f] a b c d e f show ?thesis
    by (intro conjI)
qed

text \<open>
  The claim C9 as it is written fails: for two QUERY bindings of one name, the value that
  stays is the one written last, and two invocations with the same arguments may visit the
  two bindings in different orders.
\<close>

theorem identical_requests_counterexample:
  "parseTagInfo sameNameField = Inr sameNameMeta \<and>
   visits sameNameMeta sameNameMeta \<and>
   visits sameNameMeta (sameNameMeta\<lparr>meta_Queries := [(2, ''id''), (1, ''id'')]\<rparr>) \<and>
   buildRequest stubSprint sameNameMeta [VCtx ''ctx'', VString ''a'', VString ''b'']
     = Inr \<lparr>Context = ''ctx'', Method = ''GET'', Path = ''/users'', PathVars = [],
            Params = [(''id'', ''b'')], Headers = [], Body = VNil, Result = Some ''out''\<rparr> \<and>
   buildRequest stubSprint (sameNameMeta\<lparr>meta_Queries := [(2, ''id''), (1, ''id'')]\<rparr>)
       [VCtx ''ctx'', VString ''a'', VString ''b'']
     = Inr \<lparr>Context = ''ctx'', Method = ''GET'', Path = ''/users'', PathVars = [],
            Params = [(''id'', ''a'')], Headers = [], Body = VNil, Result = Some ''out''\<rparr>"
  by code_simp

end
